(* ===== verification/Prelude.thy ===== *)
theory Prelude
  imports Main "HOL-Library.Word" "HOL-Library.Monad_Syntax" "HOL-Library.List_Lexorder"
begin

text \<open>
  What every component of the model shares.

  The programs are C for a little-endian Linux machine. Memory objects are lists of bytes.
  A C operation whose behaviour is undefined (a read or a write outside its object, a signed
  overflow, a dereference of a null pointer) is the value \<^const>\<open>None\<close>; everything the
  code itself tests for is an ordinary value. Fields of packed headers are read and written
  at byte offsets with the functions \<open>ld8\<close>, \<open>ld16\<close>, \<open>ld32\<close>, \<open>st8\<close>, \<open>st16\<close>, \<open>st32\<close>,
  which check their bounds. The C string functions work on buffers, not on HOL strings, so
  that a buffer without a terminating zero is visible.
\<close>

unbundle bit_operations_syntax

type_synonym byte = "8 word"
type_synonym u16 = "16 word"
type_synonym u32 = "32 word"

named_theorems mem_simps \<open>bounds-checked loads and stores\<close>
named_theorems cstr_simps \<open>C strings in buffers\<close>
named_theorems order_simps \<open>byte order conversions\<close>

section \<open>Byte order\<close>

definition bswap16 :: "u16 \<Rightarrow> u16" where
  "bswap16 w = push_bit 8 w OR drop_bit 8 w"

definition bswap32 :: "u32 \<Rightarrow> u32" where
  "bswap32 w = push_bit 24 w OR push_bit 8 (w AND 0xFF00)
             OR (drop_bit 8 w AND 0xFF00) OR drop_bit 24 w"

text \<open>The host is little-endian, so the network order conversions swap.\<close>

abbreviation htons :: "u16 \<Rightarrow> u16" where "htons \<equiv> bswap16"
abbreviation ntohs :: "u16 \<Rightarrow> u16" where "ntohs \<equiv> bswap16"
abbreviation htonl :: "u32 \<Rightarrow> u32" where "htonl \<equiv> bswap32"

lemma bswap16_bswap16 [simp, order_simps]: "bswap16 (bswap16 w) = w"
  by (rule bit_word_eqI) (auto simp: bswap16_def bit_simps)

lemma bswap16_inject [simp, order_simps]: "bswap16 v = bswap16 w \<longleftrightarrow> v = w"
  by (metis bswap16_bswap16)

section \<open>Little-endian words as bytes\<close>

definition word16_of :: "byte \<Rightarrow> byte \<Rightarrow> u16" where
  "word16_of lo hi = ucast lo OR push_bit 8 (ucast hi)"

definition byte0 :: "'a::len word \<Rightarrow> byte" where "byte0 w = ucast w"
definition byte1 :: "'a::len word \<Rightarrow> byte" where "byte1 w = ucast (drop_bit 8 w)"
definition byte2 :: "'a::len word \<Rightarrow> byte" where "byte2 w = ucast (drop_bit 16 w)"
definition byte3 :: "'a::len word \<Rightarrow> byte" where "byte3 w = ucast (drop_bit 24 w)"

definition word32_of :: "byte \<Rightarrow> byte \<Rightarrow> byte \<Rightarrow> byte \<Rightarrow> u32" where
  "word32_of a b c d =
     ucast a OR push_bit 8 (ucast b) OR push_bit 16 (ucast c) OR push_bit 24 (ucast d)"

definition bytes16 :: "u16 \<Rightarrow> byte list" where
  "bytes16 w = [byte0 w, byte1 w]"

definition bytes32 :: "u32 \<Rightarrow> byte list" where
  "bytes32 w = [byte0 w, byte1 w, byte2 w, byte3 w]"

lemma word16_of_bytes [simp]: "word16_of (byte0 w) (byte1 w) = w"
  by (rule bit_word_eqI) (auto simp: word16_of_def byte0_def byte1_def bit_simps)

lemma word32_of_bytes [simp]: "word32_of (byte0 w) (byte1 w) (byte2 w) (byte3 w) = w"
proof (rule bit_word_eqI)
  fix n
  assume "n < LENGTH(32)"
  then consider "n < 8" | "8 \<le> n" "n < 16" | "16 \<le> n" "n < 24" | "24 \<le> n" "n < 32"
    by fastforce
  then show "bit (word32_of (byte0 w) (byte1 w) (byte2 w) (byte3 w)) n = bit w n"
    by cases (auto simp: word32_of_def byte0_def byte1_def byte2_def byte3_def bit_simps)
qed

lemma byte0_word16_of [simp]: "byte0 (word16_of a b) = a"
  by (rule bit_word_eqI) (auto simp: word16_of_def byte0_def bit_simps)

lemma byte1_word16_of [simp]: "byte1 (word16_of a b) = b"
  by (rule bit_word_eqI)
    (auto simp: word16_of_def byte1_def bit_simps dest: bit_imp_le_length)

lemma byte_bound: "unat (b :: byte) < 256"
  using unsigned_less [of b] by simp

lemma byte_bound_int: "0 \<le> uint (b :: byte)" "uint b < 256"
  using unsigned_less [of b, where 'a = int] by simp_all

lemma unat_ucast_byte:
  "unat (ucast (b :: byte) :: u16) = unat b" "unat (ucast b :: u32) = unat b"
  using byte_bound [of b] by (simp_all add: unsigned_ucast_eq take_bit_nat_eq_self)

lemma unat_word16_of: "unat (word16_of lo hi) = unat lo + 256 * unat hi"
proof -
  have dis: "(ucast lo :: u16) AND push_bit 8 (ucast hi) = 0"
    by (rule bit_word_eqI) (auto simp: bit_simps dest: bit_imp_le_length)
  have hi: "unat (push_bit 8 (ucast hi :: u16)) = 256 * unat hi"
    using byte_bound [of hi]
    by (simp add: push_bit_eq_mult unat_word_ariths unat_ucast_byte)
  have "word16_of lo hi = ucast lo + push_bit 8 (ucast hi)"
    using dis by (simp add: word16_of_def disjunctive_add_eq_or)
  then show ?thesis
    using byte_bound [of lo] byte_bound [of hi]
    by (simp add: unat_word_ariths unat_ucast_byte hi)
qed

lemma bytes_of_word32_of [simp]:
  "byte0 (word32_of a b c d) = a" "byte1 (word32_of a b c d) = b"
  "byte2 (word32_of a b c d) = c" "byte3 (word32_of a b c d) = d"
  by (rule bit_word_eqI,
      force simp: word32_of_def byte0_def byte1_def byte2_def byte3_def bit_simps
        dest: bit_imp_le_length)+

section \<open>Bounds-checked memory\<close>

definition ld8 :: "byte list \<Rightarrow> nat \<Rightarrow> byte option" where
  "ld8 m i = (if i < length m then Some (m ! i) else None)"

definition ld16 :: "byte list \<Rightarrow> nat \<Rightarrow> u16 option" where
  "ld16 m i = do { a \<leftarrow> ld8 m i; b \<leftarrow> ld8 m (i + 1); Some (word16_of a b) }"

definition ld32 :: "byte list \<Rightarrow> nat \<Rightarrow> u32 option" where
  "ld32 m i = do { a \<leftarrow> ld8 m i; b \<leftarrow> ld8 m (i + 1); c \<leftarrow> ld8 m (i + 2); d \<leftarrow> ld8 m (i + 3);
                   Some (word32_of a b c d) }"

definition st8 :: "byte list \<Rightarrow> nat \<Rightarrow> byte \<Rightarrow> byte list option" where
  "st8 m i b = (if i < length m then Some (m[i := b]) else None)"

definition st16 :: "byte list \<Rightarrow> nat \<Rightarrow> u16 \<Rightarrow> byte list option" where
  "st16 m i w = do { m \<leftarrow> st8 m i (byte0 w); st8 m (i + 1) (byte1 w) }"

definition st32 :: "byte list \<Rightarrow> nat \<Rightarrow> u32 \<Rightarrow> byte list option" where
  "st32 m i w = do { m \<leftarrow> st8 m i (byte0 w); m \<leftarrow> st8 m (i + 1) (byte1 w);
                     m \<leftarrow> st8 m (i + 2) (byte2 w); st8 m (i + 3) (byte3 w) }"

text \<open>A block copy: the bytes \<open>bs\<close> written from offset \<open>i\<close> on.\<close>

definition st_bytes :: "byte list \<Rightarrow> nat \<Rightarrow> byte list \<Rightarrow> byte list option" where
  "st_bytes m i bs = (if i + length bs \<le> length m
     then Some (take i m @ bs @ drop (i + length bs) m) else None)"

definition ld_bytes :: "byte list \<Rightarrow> nat \<Rightarrow> nat \<Rightarrow> byte list option" where
  "ld_bytes m i n = (if i + n \<le> length m then Some (take n (drop i m)) else None)"

lemma ld8_Some_iff [mem_simps]: "ld8 m i = Some b \<longleftrightarrow> i < length m \<and> m ! i = b"
  by (simp add: ld8_def)

lemma ld8_eq [mem_simps]: "i < length m \<Longrightarrow> ld8 m i = Some (m ! i)"
  by (simp add: ld8_def)

lemma ld16_eq [mem_simps]:
  "i + 1 < length m \<Longrightarrow> ld16 m i = Some (word16_of (m ! i) (m ! (i + 1)))"
  by (simp add: ld16_def ld8_def)

lemma ld32_eq [mem_simps]:
  "i + 3 < length m \<Longrightarrow>
   ld32 m i = Some (word32_of (m ! i) (m ! (i + 1)) (m ! (i + 2)) (m ! (i + 3)))"
  by (simp add: ld32_def ld8_def)

lemma st8_eq [mem_simps]: "i < length m \<Longrightarrow> st8 m i b = Some (m[i := b])"
  by (simp add: st8_def)

lemma st16_eq [mem_simps]:
  "i + 1 < length m \<Longrightarrow> st16 m i w = Some (m[i := byte0 w, i + 1 := byte1 w])"
  by (simp add: st16_def st8_def)

lemma st32_eq [mem_simps]:
  "i + 3 < length m \<Longrightarrow>
   st32 m i w = Some (m[i := byte0 w, i + 1 := byte1 w, i + 2 := byte2 w, i + 3 := byte3 w])"
  by (simp add: st32_def st8_def)

lemma st_bytes_eq [mem_simps]:
  "i + length bs \<le> length m \<Longrightarrow>
   st_bytes m i bs = Some (take i m @ bs @ drop (i + length bs) m)"
  by (simp add: st_bytes_def)

lemma ld16_st16 [simp]: "st16 m i w = Some m' \<Longrightarrow> ld16 m' i = Some w"
  by (auto simp: st16_def st8_def ld16_def ld8_def split: if_splits)

lemma ld32_st32 [simp]: "st32 m i w = Some m' \<Longrightarrow> ld32 m' i = Some w"
  by (auto simp: st32_def st8_def ld32_def ld8_def split: if_splits)

lemma length_st [mem_simps]:
  "st8 m i b = Some m' \<Longrightarrow> length m' = length m"
  "st16 m i w = Some m' \<Longrightarrow> length m' = length m"
  "st32 m i v = Some m' \<Longrightarrow> length m' = length m"
  "st_bytes m i bs = Some m' \<Longrightarrow> length m' = length m"
  by (auto simp: st8_def st16_def st32_def st_bytes_def split: if_splits)

text \<open>
  Inside the bounds a store is a total update, and a load sees the last store to its bytes. With
  these rules the simplifier runs a sequence of header writes, given the order of the offsets.
\<close>

definition put16 :: "byte list \<Rightarrow> nat \<Rightarrow> u16 \<Rightarrow> byte list" where
  "put16 m i w = m[i := byte0 w, i + 1 := byte1 w]"

definition put32 :: "byte list \<Rightarrow> nat \<Rightarrow> u32 \<Rightarrow> byte list" where
  "put32 m i w = m[i := byte0 w, i + 1 := byte1 w, i + 2 := byte2 w, i + 3 := byte3 w]"

named_theorems put_simps \<open>loads over total updates\<close>

lemma st_put [put_simps]:
  "i < length m \<Longrightarrow> st8 m i b = Some (m[i := b])"
  "i + 1 < length m \<Longrightarrow> st16 m i w = Some (put16 m i w)"
  "i + 3 < length m \<Longrightarrow> st32 m i v = Some (put32 m i v)"
  by (simp_all only: put16_def put32_def st8_eq st16_eq st32_eq)

lemma length_put [simp]:
  "length (put16 m i w) = length m" "length (put32 m i v) = length m"
  by (simp_all add: put16_def put32_def)

lemma ld8_put [put_simps]:
  "j \<noteq> i \<Longrightarrow> ld8 (m[i := b]) j = ld8 m j"
  "j < i \<or> i + 1 < j \<Longrightarrow> ld8 (put16 m i w) j = ld8 m j"
  "j < i \<or> i + 3 < j \<Longrightarrow> ld8 (put32 m i v) j = ld8 m j"
  "i < length m \<Longrightarrow> ld8 (m[i := b]) i = Some b"
  by (auto simp: ld8_def put16_def put32_def)

lemma ld16_put [put_simps]:
  "j + 1 < i \<or> i < j \<Longrightarrow> ld16 (m[i := b]) j = ld16 m j"
  "j + 1 < i \<or> i + 1 < j \<Longrightarrow> ld16 (put16 m i w) j = ld16 m j"
  "j + 1 < i \<or> i + 3 < j \<Longrightarrow> ld16 (put32 m i v) j = ld16 m j"
  "i + 1 < length m \<Longrightarrow> ld16 (put16 m i w) i = Some w"
  by (auto simp: ld16_def ld8_put) (simp add: ld8_def put16_def)

lemma ld32_put [put_simps]:
  "j + 3 < i \<or> i < j \<Longrightarrow> ld32 (m[i := b]) j = ld32 m j"
  "j + 3 < i \<or> i + 1 < j \<Longrightarrow> ld32 (put16 m i w) j = ld32 m j"
  "j + 3 < i \<or> i + 3 < j \<Longrightarrow> ld32 (put32 m i v) j = ld32 m j"
  "i + 3 < length m \<Longrightarrow> ld32 (put32 m i v) i = Some v"
  by (auto simp: ld32_def ld8_put) (simp add: ld8_def put32_def)

lemma take_drop_update:
  "i < k \<or> k + n \<le> i \<Longrightarrow> take n (drop k (m[i := b])) = take n (drop k m)"
  by (auto simp: drop_update_swap take_update_swap drop_update_cancel list_update_beyond)

lemma take_drop_put [put_simps]:
  "i < k \<or> k + n \<le> i \<Longrightarrow> take n (drop k (m[i := b])) = take n (drop k m)"
  "i + 1 < k \<or> k + n \<le> i \<Longrightarrow> take n (drop k (put16 m i w)) = take n (drop k m)"
  "i + 3 < k \<or> k + n \<le> i \<Longrightarrow> take n (drop k (put32 m i v)) = take n (drop k m)"
  by (auto simp: put16_def put32_def take_drop_update)

lemma ld_Some_iff:
  "(\<exists>b. ld8 m i = Some b) \<longleftrightarrow> i < length m"
  "(\<exists>w. ld16 m i = Some w) \<longleftrightarrow> i + 1 < length m"
  "(\<exists>v. ld32 m i = Some v) \<longleftrightarrow> i + 3 < length m"
  by (auto simp: ld8_def ld16_def ld32_def)

section \<open>C strings\<close>

text \<open>
  The string that a buffer holds is what stands before its first zero byte. The library
  functions read byte by byte, so they leave the object when there is no zero byte in it.
\<close>

definition cstr :: "byte list \<Rightarrow> byte list" where
  "cstr bs = takeWhile (\<lambda>b. b \<noteq> 0) bs"

abbreviation terminated :: "byte list \<Rightarrow> bool" where
  "terminated bs \<equiv> 0 \<in> set bs"

fun strlen :: "byte list \<Rightarrow> nat option" where
  "strlen [] = None"
| "strlen (b # bs) = (if b = 0 then Some 0 else map_option Suc (strlen bs))"

fun strcmp :: "byte list \<Rightarrow> byte list \<Rightarrow> int option" where
  "strcmp (a # as) (b # bs) =
     (if a < b then Some (-1) else if b < a then Some 1
      else if a = 0 then Some 0 else strcmp as bs)"
| "strcmp _ _ = None"

text \<open>
  \<open>strncpy src n\<close> is the block of \<open>n\<close> bytes that \<^verbatim>\<open>strncpy(dst, src, n)\<close> writes:
  the string, padded with zeros, or its first \<open>n\<close> bytes and no zero at all.
\<close>

fun strncpy :: "byte list \<Rightarrow> nat \<Rightarrow> byte list option" where
  "strncpy src 0 = Some []"
| "strncpy [] (Suc n) = None"
| "strncpy (b # bs) (Suc n) =
     (if b = 0 then Some (replicate (Suc n) 0) else map_option ((#) b) (strncpy bs n))"

lemma cstr_simps' [simp]:
  "cstr [] = []" "cstr (b # bs) = (if b = 0 then [] else b # cstr bs)"
  by (simp_all add: cstr_def)

lemma cstr_nonzero [simp]: "0 \<notin> set (cstr bs)"
  by (induction bs) auto

lemma take_cstr_nonzero [simp]: "0 \<notin> set (take n (cstr bs))"
  by (meson cstr_nonzero in_set_takeD)

lemma cstr_append_zero [cstr_simps]: "0 \<notin> set xs \<Longrightarrow> cstr (xs @ 0 # ys) = xs"
  by (induction xs) auto

lemma cstr_unterminated [cstr_simps]: "\<not> terminated bs \<Longrightarrow> cstr bs = bs"
  by (induction bs) auto

lemma terminated_split: "terminated bs \<Longrightarrow> \<exists>rest. bs = cstr bs @ 0 # rest"
  by (induction bs) auto

lemma length_cstr_less: "terminated bs \<Longrightarrow> length (cstr bs) < length bs"
  by (induction bs) auto

lemma length_cstr_le: "length (cstr bs) \<le> length bs"
  by (induction bs) auto

lemma terminated_take_iff: "terminated (take n bs) \<longleftrightarrow> terminated bs \<and> length (cstr bs) < n"
proof (induction bs arbitrary: n)
  case (Cons b bs)
  then show ?case by (cases n) auto
qed simp

lemma strlen_eq [cstr_simps]:
  "strlen bs = (if terminated bs then Some (length (cstr bs)) else None)"
  by (induction bs) auto

lemma strlen_NoneD: "strlen bs = None \<longleftrightarrow> \<not> terminated bs"
  by (simp add: strlen_eq)

lemma strcmp_eq [cstr_simps]:
  assumes "terminated as" "terminated bs"
  shows "strcmp as bs =
    Some (if cstr as < cstr bs then -1 else if cstr bs < cstr as then 1 else 0)"
  using assms
proof (induction as bs rule: strcmp.induct)
  case (1 a as b bs)
  then show ?case
    by (auto simp: word_neq_0_conv [symmetric] simp del: word_neq_0_conv)
qed auto

lemma strncpy_eq [cstr_simps]:
  "strncpy src n =
     (if terminated src \<or> n \<le> length src
      then Some (take n (cstr src) @ replicate (n - length (cstr src)) 0) else None)"
  by (induction src n rule: strncpy.induct) auto

lemma strncpy_prefix:
  assumes "terminated (take k src)" "take k src' = take k src"
  shows "strncpy src' n = strncpy src n" "cstr src' = cstr src" "terminated src'"
proof -
  have split: "xs = take k xs @ drop k xs" for xs :: "byte list" by simp
  have *: "cstr ys = cstr (take k ys)" if "terminated (take k ys)" for ys
    using terminated_split [OF that] by (metis cstr_append_zero cstr_nonzero split append.assoc append_Cons)
  show "cstr src' = cstr src" using * [of src] * [of src'] assms by simp
  moreover show "terminated src'" using assms by (metis in_set_takeD)
  moreover have "terminated src" using assms by (metis in_set_takeD)
  ultimately show "strncpy src' n = strncpy src n" by (simp add: strncpy_eq)
qed

lemma strncpy_length: "strncpy src n = Some d \<Longrightarrow> length d = n"
  by (auto simp: strncpy_eq length_cstr_le min_def cstr_unterminated split: if_splits)

lemma strncpy_terminated:
  "strncpy src n = Some d \<Longrightarrow> terminated d \<longleftrightarrow> length (cstr src) < n"
  by (auto simp: strncpy_eq split: if_splits)

lemma cstr_replicate_zero [simp]: "cstr (replicate n 0) = []"
  by (induction n) auto

lemma cstr_append [cstr_simps]: "0 \<notin> set xs \<Longrightarrow> cstr (xs @ ys) = xs @ cstr ys"
  by (induction xs) auto

lemma strncpy_cstr: "strncpy src n = Some d \<Longrightarrow> cstr d = take n (cstr src)"
  by (auto simp: strncpy_eq cstr_append split: if_splits)

lemma strncpy_terminated_take:
  "strncpy src n = Some d \<Longrightarrow> terminated d \<longleftrightarrow> terminated (take n src)"
  by (induction src n arbitrary: d rule: strncpy.induct) (auto split: if_splits)

section \<open>Decimal numbers as C strings\<close>

text \<open>What \<^verbatim>\<open>sprintf("%d")\<close> writes for a number that is not negative, and what \<^verbatim>\<open>%d\<close> scans.\<close>

fun decimal :: "nat \<Rightarrow> byte list" where
  "decimal n = (if n < 10 then [word_of_nat (48 + n)]
     else decimal (n div 10) @ [word_of_nat (48 + n mod 10)])"

declare decimal.simps [simp del]

definition is_digit :: "byte \<Rightarrow> bool" where
  "is_digit b \<longleftrightarrow> 48 \<le> unat b \<and> unat b \<le> 57"

definition digits_val :: "byte list \<Rightarrow> nat" where
  "digits_val ds = foldl (\<lambda>n d. 10 * n + (unat d - 48)) 0 ds"

lemma unat_digit: "d < 10 \<Longrightarrow> unat (word_of_nat (48 + d) :: byte) = 48 + d"
  by (simp add: unat_of_nat del: of_nat_add)

lemma digits_val_snoc [simp]:
  "digits_val [] = 0" "digits_val (ds @ [d]) = 10 * digits_val ds + (unat d - 48)"
  by (simp_all add: digits_val_def)

lemma decimal_props:
  "decimal n \<noteq> [] \<and> (\<forall>d \<in> set (decimal n). is_digit d) \<and> digits_val (decimal n) = n"
proof (induction n rule: decimal.induct)
  case (1 n)
  have d: "unat (word_of_nat (48 + m) :: byte) = 48 + m" if "m < 10" for m
    by (rule unat_digit [OF that])
  show ?case
  proof (cases "n < 10")
    case True
    then show ?thesis
      using d [OF True] digits_val_snoc(2) [of "[]" "word_of_nat (48 + n)"]
      by (subst (1 2 3) decimal.simps) (simp add: is_digit_def)
  next
    case False
    have "n mod 10 < 10" by simp
    from d [OF this] 1 [OF False] False show ?thesis
      by (subst (1 2 3) decimal.simps) (auto simp: is_digit_def simp del: of_nat_add)
  qed
qed

lemma length_decimal: "0 < k \<Longrightarrow> length (decimal n) \<le> k \<longleftrightarrow> n < 10 ^ k"
proof (induction n arbitrary: k rule: decimal.induct)
  case (1 n)
  show ?case
  proof (cases "n < 10")
    case True
    then have "length (decimal n) = 1" by (subst decimal.simps) simp
    moreover have "(10::nat) ^ 1 \<le> 10 ^ k" using 1(2) by (intro power_increasing) auto
    ultimately show ?thesis using True 1(2) by simp
  next
    case False
    then have len: "length (decimal n) = length (decimal (n div 10)) + 1" by (subst decimal.simps) simp
    have pos: "0 < length (decimal (n div 10))" using decimal_props by blast
    show ?thesis
    proof (cases "k = 1")
      case True
      then show ?thesis using len pos False by simp
    next
      case k: False
      then obtain j where j: "k = Suc j" "0 < j" using 1(2) by (cases k) auto
      have "n div 10 < 10 ^ j \<longleftrightarrow> n < 10 ^ k"
        unfolding j by (simp add: div_less_iff_less_mult mult.commute)
      then show ?thesis using 1(1) [OF False, of j] j len by simp
    qed
  qed
qed

lemma decimal_nonzero: "0 \<notin> set (decimal n)"
  using decimal_props [of n] by (auto simp: is_digit_def)

text \<open>
  The kernel's \<^verbatim>\<open>sscanf\<close> with \<^verbatim>\<open>"%d"\<close>: leading blanks, an optional minus, at least one digit;
  \<^const>\<open>None\<close> when nothing is converted.
\<close>

definition is_space :: "byte \<Rightarrow> bool" where
  "is_space b \<longleftrightarrow> b = 32 \<or> (9 \<le> unat b \<and> unat b \<le> 13)"

definition scan_d :: "byte list \<Rightarrow> (int \<times> byte list) option" where
  "scan_d str =
     (let str = dropWhile is_space str;
          neg = (str \<noteq> [] \<and> hd str = 45);
          str = (if neg then tl str else str);
          n = int (digits_val (takeWhile is_digit str))
      in if takeWhile is_digit str = [] then None
         else Some (if neg then - n else n, dropWhile is_digit str))"

definition scan_int :: "byte list \<Rightarrow> int option" where
  "scan_int str = map_option fst (scan_d str)"

lemma scan_d_decimal:
  assumes "rest = [] \<or> \<not> is_digit (hd rest)"
  shows "scan_d (decimal n @ rest) = Some (int n, rest)"
proof -
  obtain d ds where d: "decimal n = d # ds" using decimal_props [of n] by (cases "decimal n") auto
  then have "is_digit d" using decimal_props [of n] by simp
  then have "\<not> is_space d" "d \<noteq> 45" by (auto simp: is_digit_def is_space_def)
  moreover have "takeWhile is_digit (decimal n @ rest) = decimal n"
    "dropWhile is_digit (decimal n @ rest) = rest"
    using decimal_props [of n] assms by (cases rest; simp)+
  ultimately show ?thesis using decimal_props [of n] by (simp add: scan_d_def d)
qed

lemma scan_decimal:
  "rest = [] \<or> \<not> is_digit (hd rest) \<Longrightarrow> scan_int (decimal n @ rest) = Some (int n)"
  by (simp add: scan_int_def scan_d_decimal)

text \<open>The two nibbles of the first byte of an IP header, stored one after the other.\<close>

lemma version_and_ihl: "(((b :: byte) AND 0xF0 OR 5) AND 0x0F) OR 0x40 = 0x45"
  by (rule bit_word_eqI) (auto simp: bit_simps bit_numeral_rec less_Suc_eq eval_nat_numeral)

end
