(* ===== verification/Checksum.thy ===== *)
theory Checksum
  imports Prelude
begin

text \<open>
  The Internet checksum. The repository has four copies of it: \<open>checksum\<close> of
  raw\_socket/utils.c over an \<^verbatim>\<open>int\<close> accumulator, \<open>checksum\<close> of ping/main.c and of
  traceroute/main.c over a \<^verbatim>\<open>long\<close>, and \<open>check_sum\<close> of sniffer/main.c over an
  \<^verbatim>\<open>unsigned int\<close> that is not initialised. The reference is RFC 1071: the complement of
  the one's complement sum of the 16-bit words, \<open>rfc1071\<close>. The locale \<open>inet_checksum\<close> is
  what the packet builders rely on; the copies that meet it interpret it.
\<close>

section \<open>The code\<close>

text \<open>
  The summing loop: \<^verbatim>\<open>while (nleft > 1) { sum += *w++; nleft -= 2; }\<close>. The accumulator is
  signed, so reaching the bound \<open>lim\<close> of its type (\<open>2 ^ 31\<close> for \<^verbatim>\<open>int\<close>, \<open>2 ^ 63\<close> for
  \<^verbatim>\<open>long\<close>) is undefined, as is reading past the end of the buffer.
\<close>

fun sum_words :: "int \<Rightarrow> byte list \<Rightarrow> int \<Rightarrow> int \<Rightarrow> (byte list \<times> int \<times> int) option" where
  "sum_words lim w nleft acc =
     (if nleft > 1 then
        (case w of
           a # b # w' \<Rightarrow>
             (let s = acc + uint (word16_of a b)
              in if s < lim then sum_words lim w' (nleft - 2) s else None)
         | _ \<Rightarrow> None)
      else Some (w, nleft, acc))"

definition add_signed :: "int \<Rightarrow> int \<Rightarrow> int \<Rightarrow> int option" where
  "add_signed lim a b = (if a + b < lim then Some (a + b) else None)"

text \<open>raw\_socket/utils.c\<close>

definition checksum :: "byte list \<Rightarrow> int \<Rightarrow> u16 option" where
  "checksum addr len = do {
     (w, nleft, acc) \<leftarrow> sum_words (2 ^ 31) addr len 0;
     acc \<leftarrow> (if nleft = 1
             then do { c \<leftarrow> ld8 w 0; add_signed (2 ^ 31) acc (uint (word16_of c 0)) }
             else Some acc);
     let acc = drop_bit 16 acc + (acc AND 0xFFFF);
     let acc = acc + drop_bit 16 acc;
     Some (word_of_int (NOT acc))
   }"

text \<open>ping/main.c and, word for word the same, traceroute/main.c\<close>

definition ping_checksum :: "byte list \<Rightarrow> int \<Rightarrow> u16 option" where
  "ping_checksum ptr nbytes = do {
     (ptr, nbytes, acc) \<leftarrow> sum_words (2 ^ 63) ptr nbytes 0;
     acc \<leftarrow> (if nbytes = 1
             then do { c \<leftarrow> ld8 ptr 0; add_signed (2 ^ 63) acc (uint (word16_of c 0)) }
             else Some acc);
     let acc = drop_bit 16 acc + (acc AND 0xFFFF);
     let acc = acc + drop_bit 16 acc;
     Some (word_of_int (NOT acc))
   }"

definition tr_checksum :: "byte list \<Rightarrow> int \<Rightarrow> u16 option" where
  "tr_checksum ptr nbytes = do {
     (ptr, nbytes, acc) \<leftarrow> sum_words (2 ^ 63) ptr nbytes 0;
     acc \<leftarrow> (if nbytes = 1
             then do { c \<leftarrow> ld8 ptr 0; add_signed (2 ^ 63) acc (uint (word16_of c 0)) }
             else Some acc);
     let acc = drop_bit 16 acc + (acc AND 0xFFFF);
     let acc = acc + drop_bit 16 acc;
     Some (word_of_int (NOT acc))
   }"

text \<open>
  sniffer/main.c: the accumulator is unsigned and wraps, its start value \<open>sum0\<close> is whatever
  the stack held, and the odd byte is read through \<open>buf\<close>, which still points at the start.
\<close>

fun sum_words32 :: "byte list \<Rightarrow> int \<Rightarrow> u32 \<Rightarrow> (int \<times> u32) option" where
  "sum_words32 part nbytes acc =
     (if nbytes > 1 then
        (case part of
           a # b # part' \<Rightarrow> sum_words32 part' (nbytes - 2) (acc + ucast (word16_of a b))
         | _ \<Rightarrow> None)
      else Some (nbytes, acc))"

definition check_sum :: "u32 \<Rightarrow> byte list \<Rightarrow> int \<Rightarrow> u16 option" where
  "check_sum sum0 buf nbytes = do {
     (nbytes, acc) \<leftarrow> sum_words32 buf nbytes sum0;
     acc \<leftarrow> (if nbytes = 1
             then do { c \<leftarrow> ld8 buf 0; Some (acc + ucast (word16_of c 0)) }
             else Some acc);
     let acc = drop_bit 16 acc + (acc AND 0xFFFF);
     let acc = acc + drop_bit 16 acc;
     Some (ucast (NOT acc))
   }"

section \<open>The reference\<close>

fun words_of :: "byte list \<Rightarrow> u16 list" where
  "words_of (a # b # bs) = word16_of a b # words_of bs"
| "words_of [a] = [word16_of a 0]"
| "words_of [] = []"

text \<open>Addition with the end-around carry.\<close>

definition ones_add :: "u16 \<Rightarrow> u16 \<Rightarrow> u16" where
  "ones_add a b = (if unat a + unat b < 65536 then a + b else a + b + 1)"

definition rfc1071 :: "byte list \<Rightarrow> u16" where
  "rfc1071 bs = NOT (foldl ones_add 0 (words_of bs))"

definition word_sum :: "byte list \<Rightarrow> nat" where
  "word_sum bs = (\<Sum>w\<leftarrow>words_of bs. unat w)"

text \<open>The one's complement value of a plain sum: 0 only for 0, else in \<open>1..65535\<close>.\<close>

definition norm16 :: "nat \<Rightarrow> nat" where
  "norm16 s = (if s = 0 then 0 else (s - 1) mod 65535 + 1)"

declare sum_words.simps [simp del] sum_words32.simps [simp del]

lemma norm16_le: "norm16 s \<le> 65535"
  using mod_less_divisor [of 65535 "s - 1"] by (simp add: norm16_def del: mod_less_divisor)

lemma norm16_small: "s \<le> 65535 \<Longrightarrow> norm16 s = s"
  by (auto simp: norm16_def)

lemma norm16_add_multiple: "0 < s \<Longrightarrow> norm16 (s + 65535 * q) = norm16 s"
proof -
  assume "0 < s"
  then have "s + 65535 * q - 1 = (s - 1) + 65535 * q" by simp
  then show ?thesis
    using \<open>0 < s\<close> by (simp only: norm16_def mod_mult_self2) auto
qed

lemma norm16_minus: "65535 < s \<Longrightarrow> norm16 (s - 65535) = norm16 s"
  using norm16_add_multiple [of "s - 65535" 1] by simp

lemma norm16_decompose:
  obtains q where "s = norm16 s + 65535 * q"
proof (cases "s = 0")
  case True
  then show ?thesis using that [of 0] by (simp add: norm16_def)
next
  case False
  have "s = (s - 1) mod 65535 + 1 + 65535 * ((s - 1) div 65535)"
    using False mod_mult_div_eq [of "s - 1" 65535] by simp
  with False show ?thesis using that [of "(s - 1) div 65535"] by (simp add: norm16_def)
qed

lemma norm16_pos: "0 < s \<Longrightarrow> 0 < norm16 s"
  by (simp add: norm16_def)

lemma norm16_absorb: "norm16 (norm16 s + t) = norm16 (s + t)"
proof (cases "s = 0")
  case True
  then show ?thesis by (simp add: norm16_def)
next
  case False
  obtain q where "s = norm16 s + 65535 * q" by (rule norm16_decompose)
  then have "s + t = (norm16 s + t) + 65535 * q" by linarith
  moreover have "0 < norm16 s + t" using False norm16_pos [of s] by simp
  ultimately show ?thesis by (metis norm16_add_multiple)
qed

lemma norm16_eq_65535_iff: "norm16 s = 65535 \<longleftrightarrow> 0 < s \<and> 65535 dvd s"
proof (cases "s = 0")
  case False
  obtain q where q: "s = norm16 s + 65535 * q" by (rule norm16_decompose)
  have "65535 dvd s \<longleftrightarrow> 65535 dvd norm16 s"
    by (subst q) (simp only: dvd_add_times_triv_right_iff mult.commute)
  also have "\<dots> \<longleftrightarrow> norm16 s = 65535"
    using norm16_le [of s] norm16_pos [of s] False by (auto dest: dvd_imp_le)
  finally show ?thesis using False by simp
qed (simp add: norm16_def)

lemma u16_bound: "unat (w :: u16) < 65536"
  using unsigned_less [of w] by simp

lemma unat_ones_add: "unat (ones_add a b) = norm16 (unat a + unat b)"
proof (cases "unat a + unat b < 65536")
  case True
  then show ?thesis by (simp add: ones_add_def unat_word_ariths norm16_small)
next
  case False
  have "unat a < 65536" "unat b < 65536" by (rule u16_bound)+
  moreover from this False have "(unat a + unat b + 1) mod 65536 = unat a + unat b + 1 - 65536"
    by (subst mod_if) simp
  ultimately have "unat (ones_add a b) = unat a + unat b - 65535"
    using False by (simp add: ones_add_def unat_word_ariths mod_simps)
  with False show ?thesis
    using norm16_minus [of "unat a + unat b"] norm16_small [of "unat a + unat b - 65535"]
      u16_bound [of a] u16_bound [of b] by auto
qed

lemma unat_foldl_ones_add:
  "unat (foldl ones_add a ws) = norm16 (unat a + (\<Sum>w\<leftarrow>ws. unat w))"
proof (induction ws arbitrary: a)
  case Nil
  then show ?case using u16_bound [of a] by (simp add: norm16_small)
next
  case (Cons w ws)
  then show ?case by (simp add: unat_ones_add norm16_absorb add.assoc)
qed

lemma unat_ones_sum: "unat (foldl ones_add 0 (words_of bs)) = norm16 (word_sum bs)"
  by (simp add: unat_foldl_ones_add word_sum_def)

text \<open>The value that the checksum complements.\<close>

lemma rfc1071_eq: "rfc1071 bs = NOT (word_of_nat (norm16 (word_sum bs)))"
  unfolding rfc1071_def unat_ones_sum [symmetric] by simp

section \<open>The loops compute the plain sum\<close>

lemma word_sum_simps [simp]:
  "word_sum [] = 0" "word_sum [a] = unat (word16_of a 0)"
  "word_sum (a # b # bs) = unat (word16_of a b) + word_sum bs"
  by (simp_all add: word_sum_def)

lemma word_sum_append: "even (length xs) \<Longrightarrow> word_sum (xs @ ys) = word_sum xs + word_sum ys"
  by (induction xs rule: words_of.induct) auto

lemma word_sum_take_odd:
  assumes "even k" "k < length w"
  shows "word_sum (take (Suc k) w) = word_sum (take k w) + unat (word16_of (w ! k) 0)"
  using assms by (simp add: take_Suc_conv_app_nth word_sum_append)

lemma word_sum_bound: "word_sum bs \<le> 65535 * ((length bs + 1) div 2)"
proof (induction bs rule: words_of.induct)
  case (1 a b bs)
  then show ?case using u16_bound [of "word16_of a b"] by auto
next
  case (2 a)
  then show ?case using u16_bound [of "word16_of a 0"] by auto
qed simp

lemma sum_words_step:
  "1 < n \<Longrightarrow> sum_words lim (a # b # w) n acc =
     (let s = acc + uint (word16_of a b)
      in if s < lim then sum_words lim w (n - 2) s else None)"
  by (subst sum_words.simps) simp

lemma sum_words_stop: "n \<le> 1 \<Longrightarrow> sum_words lim w n acc = Some (w, n, acc)"
  by (subst sum_words.simps) simp

lemma uint_eq_unat: "uint w = int (unat w)"
  by simp

lemma sum_words_eq:
  assumes "n \<le> length w" and "acc < lim"
  shows "sum_words lim w (int n) acc =
    (if acc + int (word_sum (take (2 * (n div 2)) w)) < lim
     then Some (drop (2 * (n div 2)) w, int (n mod 2),
                acc + int (word_sum (take (2 * (n div 2)) w)))
     else None)"
  using assms
proof (induction n arbitrary: w acc rule: less_induct)
  case (less n)
  show ?case
  proof (cases "n < 2")
    case True
    with less.prems show ?thesis by (auto simp: sum_words_stop less_2_cases_iff)
  next
    case False
    with less.prems obtain a b v where w: "w = a # b # v"
      by (cases w rule: words_of.cases) auto
    obtain m where n: "n = Suc (Suc m)"
      using False by (metis One_nat_def Suc_1 add_2_eq_Suc le_Suc_ex not_less)
    have half: "2 * (n div 2) = Suc (Suc (2 * (m div 2)))" "n mod 2 = m mod 2"
      by (simp_all add: n)
    let ?s = "acc + int (unat (word16_of a b))"
    let ?r = "int (word_sum (take (2 * (m div 2)) v))"
    have step: "sum_words lim w (int n) acc =
        (if ?s < lim then sum_words lim v (int m) ?s else None)"
      by (simp add: w n sum_words_step Let_def)
    have tk: "int (word_sum (take (2 * (n div 2)) w)) = int (unat (word16_of a b)) + ?r"
      and dr: "drop (2 * (n div 2)) w = drop (2 * (m div 2)) v"
      unfolding half w by simp_all
    show ?thesis
    proof (cases "?s < lim")
      case True
      have "sum_words lim v (int m) ?s = (if ?s + ?r < lim
         then Some (drop (2 * (m div 2)) v, int (m mod 2), ?s + ?r) else None)"
        by (rule less.IH) (use n w less.prems True in auto)
      with True show ?thesis
        unfolding step tk dr half(2) add.assoc by (simp only: if_True)
    next
      case False
      then show ?thesis unfolding step tk by (simp only: if_False) simp
    qed
  qed
qed

text \<open>With the odd byte the accumulator holds the sum of the words of the whole range.\<close>

lemma sum_words_total:
  assumes "n \<le> length w" and "0 < lim"
  shows "do { (v, l, acc) \<leftarrow> sum_words lim w (int n) 0;
              acc \<leftarrow> (if l = 1 then do { c \<leftarrow> ld8 v 0; add_signed lim acc (uint (word16_of c 0)) }
                     else Some acc);
              f acc }
       = (if int (word_sum (take n w)) < lim then f (int (word_sum (take n w))) else None)"
proof (cases "even n")
  case True
  then have "2 * (n div 2) = n" "n mod 2 = 0" by auto
  then show ?thesis by (simp add: sum_words_eq [OF assms])
next
  case False
  define k where "k = 2 * (n div 2)"
  have n: "n = Suc k" "n mod 2 = 1" "even k" "k < length w"
    using False assms by (auto simp: k_def elim: oddE)
  define u where "u = uint (word16_of (w ! k) 0)"
  have tot: "int (word_sum (take n w)) = int (word_sum (take k w)) + u"
    using n by (simp add: word_sum_take_odd u_def)
  have sw: "sum_words lim w (int n) 0 =
      (if int (word_sum (take k w)) < lim
       then Some (drop k w, 1, int (word_sum (take k w))) else None)"
    using sum_words_eq [OF assms] by (simp add: n(2) k_def [symmetric])
  have ld: "ld8 (drop k w) 0 = Some (w ! k)" using n by (simp add: ld8_def)
  have "0 \<le> u" by (simp add: u_def)
  then show ?thesis
    unfolding sw tot by (auto simp: ld add_signed_def u_def [symmetric])
qed

lemma sum_words_overread:
  "int (length w) < n \<Longrightarrow> 1 < n \<Longrightarrow>
   sum_words lim w n acc = None \<or> (\<exists>acc'. sum_words lim w n acc = Some ([], 1, acc'))"
proof (induction lim w n acc rule: sum_words.induct)
  case (1 lim w n acc)
  consider "w = []" | a where "w = [a]" | a b v where "w = a # b # v"
    by (cases w rule: words_of.cases) auto
  then show ?case
  proof cases
    case (3 a b v)
    let ?s = "acc + uint (word16_of a b)"
    show ?thesis
    proof (cases "?s < lim \<and> 1 < n - 2")
      case True
      then show ?thesis using "1.IH" [OF \<open>1 < n\<close> 3 refl, of ?s] "1.prems" 3
        by (auto simp: sum_words_step)
    next
      case False
      show ?thesis
      proof (cases "?s < lim")
        case True
        with False "1.prems" 3 have "n \<le> 3" "2 + int (length v) < n" by simp_all
        then have "n = 3" "int (length v) = 0" by linarith+
        with True 3 show ?thesis by (simp add: sum_words_step sum_words_stop)
      qed (use "1.prems" 3 in \<open>simp add: sum_words_step\<close>)
    qed
  qed (use "1.prems" in \<open>auto simp: sum_words.simps\<close>)
qed

section \<open>Folding the carries\<close>

lemma and_low16: "(x :: int) AND 0xFFFF = x mod 65536"
proof -
  have "x AND 0xFFFF = x AND mask 16" by (simp add: mask_eq_exp_minus_1)
  also have "\<dots> = take_bit 16 x" by (simp only: take_bit_eq_mask)
  finally show ?thesis by (simp add: take_bit_eq_mod)
qed

lemma fold_twice:
  assumes "s < 2 ^ 32"
  defines "t \<equiv> s div 65536 + s mod 65536"
  shows "(t + t div 65536) mod 65536 = norm16 s"
proof -
  have q: "s div 65536 < 65536" using assms(1) by (simp add: less_mult_imp_div_less)
  have r: "s mod 65536 < 65536" by simp
  have s: "s = t + 65535 * (s div 65536)"
    unfolding t_def using div_mult_mod_eq [of s 65536] by linarith
  have st: "norm16 s = norm16 t"
  proof (cases "t = 0")
    case True
    then have "s = 0" using s by (simp add: t_def)
    then show ?thesis by (simp add: t_def)
  next
    case False
    then show ?thesis by (subst s) (simp add: norm16_add_multiple)
  qed
  show ?thesis
  proof (cases "t < 65536")
    case True
    then show ?thesis by (simp add: st norm16_small)
  next
    case False
    have le: "t \<le> 131070" using q r unfolding t_def by linarith
    from False have "t div 65536 = 1" using q r unfolding t_def by (subst div_if) (simp, linarith)
    moreover have "(t + 1) mod 65536 = t + 1 - 65536"
      using False q r unfolding t_def by (subst mod_if) simp
    ultimately show ?thesis
      using False le norm16_minus [of t] norm16_small [of "t - 65535"] by (simp add: st)
  qed
qed

lemma fold_int:
  assumes "s < 2 ^ 32"
  shows "(let acc = drop_bit 16 (int s) + (int s AND 0xFFFF); acc = acc + drop_bit 16 acc
          in (word_of_int (NOT acc) :: u16)) = NOT (word_of_nat (norm16 s))"
proof -
  let ?t = "s div 65536 + s mod 65536"
  let ?t2 = "?t + ?t div 65536"
  have "drop_bit 16 (int s) + (int s AND 0xFFFF) = int ?t"
    by (simp add: drop_bit_eq_div and_low16 of_nat_div of_nat_mod)
  then have "(let acc = drop_bit 16 (int s) + (int s AND 0xFFFF); acc = acc + drop_bit 16 acc
          in (word_of_int (NOT acc) :: u16)) = word_of_int (NOT (int ?t2))"
    by (simp add: Let_def drop_bit_eq_div of_nat_div)
  also have "\<dots> = NOT (word_of_nat ?t2)"
    by (simp only: word_not_def [symmetric] of_int_of_nat_eq of_int_not_eq)
  also have "word_of_nat ?t2 = (word_of_nat (norm16 s) :: u16)"
    using fold_twice [OF assms] norm16_le [of s]
    by (simp only: word_of_nat_eq_iff take_bit_eq_mod len_num1 len_bit0) simp
  finally show ?thesis .
qed

section \<open>The implementations meet the reference\<close>

lemma checksum_eq:
  assumes "n \<le> length buf"
  shows "checksum buf (int n) =
    (if word_sum (take n buf) < 2 ^ 31 then Some (rfc1071 (take n buf)) else None)"
  unfolding checksum_def
  by (subst sum_words_total [OF assms])
    (use fold_int [of "word_sum (take n buf)"] in \<open>auto simp: Let_def rfc1071_eq\<close>)

lemma ping_checksum_eq:
  assumes "n \<le> length buf" "n \<le> 131072"
  shows "ping_checksum buf (int n) = Some (rfc1071 (take n buf))"
proof -
  have "word_sum (take n buf) \<le> 65535 * ((n + 1) div 2)"
    using word_sum_bound [of "take n buf"] assms(1) by (simp add: min_absorb2)
  also have "(n + 1) div 2 \<le> 65536" using assms(2) by linarith
  finally have le: "word_sum (take n buf) \<le> 65535 * 65536" by simp
  then have "word_sum (take n buf) < 2 ^ 32" by simp
  then show ?thesis
    unfolding ping_checksum_def
    by (subst sum_words_total [OF assms(1)])
      (use fold_int [of "word_sum (take n buf)"] in \<open>simp_all add: Let_def rfc1071_eq\<close>)
qed

lemma tr_checksum_is_ping_checksum: "tr_checksum = ping_checksum"
  by (rule ext)+ (simp add: tr_checksum_def ping_checksum_def)

lemma word_sum_int_safe: "length bs \<le> 65536 \<Longrightarrow> word_sum bs < 2 ^ 31"
proof -
  assume "length bs \<le> 65536"
  then have "(length bs + 1) div 2 \<le> 32768" by linarith
  then have "word_sum bs \<le> 65535 * 32768"
    using word_sum_bound [of bs] by (meson le_trans mult_le_mono2)
  then show ?thesis by simp
qed

lemma words_of_length: "length (words_of bs) = (length bs + 1) div 2"
  by (induction bs rule: words_of.induct) auto

subsection \<open>What a packet builder relies on\<close>

text \<open>
  A sender writes the checksum of a packet, taken while the checksum field is zero, into that
  field; a receiver sums the packet as it is and expects zero. The contract is that the routine
  computes RFC 1071 on every packet up to \<open>max_len\<close> bytes.
\<close>

definition insert_csum :: "byte list \<Rightarrow> nat \<Rightarrow> u16 \<Rightarrow> byte list" where
  "insert_csum pkt k c = pkt[k := byte0 c, k + 1 := byte1 c]"

lemma insert_csum_split:
  assumes "k + 1 < length pkt"
  shows "insert_csum pkt k c = take k pkt @ byte0 c # byte1 c # drop (k + 2) pkt"
proof (rule nth_equalityI)
  fix i
  assume "i < length (insert_csum pkt k c)"
  then consider "i < k" | "i = k" | "i = k + 1" | j where "i = k + 2 + j" "i < length pkt"
    by (auto simp: insert_csum_def) (metis add_2_eq_Suc' less_SucE less_iff_Suc_add not_less_eq)
  then show "insert_csum pkt k c ! i = (take k pkt @ byte0 c # byte1 c # drop (k + 2) pkt) ! i"
    by cases (use assms in \<open>auto simp: insert_csum_def nth_append nth_list_update\<close>)
qed (use assms in \<open>simp add: insert_csum_def\<close>)

lemma word_sum_insert_csum:
  assumes "even k" "k + 1 < length pkt"
  shows "word_sum (insert_csum pkt k c) + unat (word16_of (pkt ! k) (pkt ! (k + 1)))
       = word_sum pkt + unat c"
proof -
  have pkt: "pkt = take k pkt @ pkt ! k # pkt ! (k + 1) # drop (k + 2) pkt"
    using assms(2) by (simp add: Cons_nth_drop_Suc)
  have "even (length (take k pkt))" using assms by simp
  then have "word_sum pkt = word_sum (take k pkt)
      + (unat (word16_of (pkt ! k) (pkt ! (k + 1))) + word_sum (drop (k + 2) pkt))"
    by (subst pkt, subst word_sum_append) simp_all
  moreover have "word_sum (insert_csum pkt k c) =
      word_sum (take k pkt) + (unat c + word_sum (drop (k + 2) pkt))"
    unfolding insert_csum_split [OF assms(2)]
    by (subst word_sum_append) (use assms in simp_all)
  ultimately show ?thesis by simp
qed

lemma unat_not_u16: "unat (NOT (w :: u16)) = 65535 - unat w"
proof -
  have "NOT w = -1 - w" by (simp add: not_eq_complement)
  then show ?thesis by (simp add: unat_sub unsigned_minus_1_eq_mask mask_eq_exp_minus_1)
qed

lemma unat_rfc1071: "unat (rfc1071 bs) = 65535 - norm16 (word_sum bs)"
  unfolding rfc1071_def unat_not_u16 unat_ones_sum ..

lemma rfc1071_zero_iff: "rfc1071 bs = 0 \<longleftrightarrow> 0 < word_sum bs \<and> 65535 dvd word_sum bs"
proof -
  have "rfc1071 bs = 0 \<longleftrightarrow> 65535 - norm16 (word_sum bs) = 0"
    by (simp only: unat_rfc1071 [symmetric] unat_eq_0)
  also have "\<dots> \<longleftrightarrow> norm16 (word_sum bs) = 65535"
    using norm16_le [of "word_sum bs"] by linarith
  finally show ?thesis by (simp only: norm16_eq_65535_iff)
qed

lemma rfc1071_insert_own:
  assumes "even k" "k + 1 < length pkt" "pkt ! k = 0" "pkt ! (k + 1) = 0"
  shows "rfc1071 (insert_csum pkt k (rfc1071 pkt)) = 0"
proof -
  let ?s = "word_sum pkt"
  have "word16_of 0 0 = 0" by (simp add: word16_of_def)
  then have w: "word_sum (insert_csum pkt k (rfc1071 pkt)) = ?s + (65535 - norm16 ?s)"
    using word_sum_insert_csum [OF assms(1,2), of "rfc1071 pkt"] assms(3,4)
    by (simp add: unat_rfc1071)
  obtain q where q: "?s = norm16 ?s + 65535 * q" by (rule norm16_decompose)
  have "?s + (65535 - norm16 ?s) = 65535 * (q + 1)"
    using q norm16_le [of ?s] by simp
  then show ?thesis unfolding rfc1071_zero_iff w by simp
qed

lemma word_sum_update:
  "i < length pkt \<Longrightarrow>
   int (word_sum (pkt[i := b])) =
   int (word_sum pkt) + (if even i then 1 else 256) * (int (unat b) - int (unat (pkt ! i)))"
proof (induction pkt arbitrary: i rule: words_of.induct)
  case (1 x y bs)
  show ?case
  proof (cases "i < 2")
    case True
    then show ?thesis by (auto simp: less_2_cases_iff unat_word16_of algebra_simps)
  next
    case False
    then obtain j where "i = Suc (Suc j)"
      by (metis add_2_eq_Suc le_Suc_ex not_less)
    then show ?thesis using "1.IH" "1.prems" by (simp add: algebra_simps)
  qed
next
  case (2 x)
  then show ?case by (simp add: unat_word16_of)
qed simp

lemma rfc1071_detects:
  assumes "rfc1071 pkt = 0" "i < length pkt" "b \<noteq> pkt ! i"
  shows "rfc1071 (pkt[i := b]) \<noteq> 0"
proof
  let ?d = "(if even i then 1 else 256) * (int (unat b) - int (unat (pkt ! i)))"
  assume "rfc1071 (pkt[i := b]) = 0"
  then have "int 65535 dvd int (word_sum (pkt[i := b]))" "int 65535 dvd int (word_sum pkt)"
    using assms(1) by (simp_all only: rfc1071_zero_iff int_dvd_int_iff)
  then have "65535 dvd ?d"
    unfolding word_sum_update [OF assms(2)] by (simp add: dvd_add_right_iff)
  moreover have "\<bar>uint b - uint (pkt ! i)\<bar> < 256"
    using byte_bound_int [of b] byte_bound_int [of "pkt ! i"] by linarith
  then have "\<bar>?d\<bar> < 65535" by (auto simp: abs_mult)
  ultimately have "?d = 0" using zdvd_not_zless [of "\<bar>?d\<bar>" 65535] by fastforce
  then have "uint b = uint (pkt ! i)" by (cases "even i") simp_all
  then show False using assms(3) unsigned_word_eqI by blast
qed

locale inet_checksum =
  fixes csum :: "byte list \<Rightarrow> u16 option"
    and max_len :: nat
  assumes csum_rfc: "length pkt \<le> max_len \<Longrightarrow> csum pkt = Some (rfc1071 pkt)"
begin

lemma own_checksum_verifies:
  assumes "length pkt \<le> max_len" "even k" "k + 1 < length pkt"
    and "pkt ! k = 0" "pkt ! (k + 1) = 0" "csum pkt = Some c"
  shows "csum (insert_csum pkt k c) = Some 0"
proof -
  have "c = rfc1071 pkt" using assms(1,6) csum_rfc by simp
  then show ?thesis
    using rfc1071_insert_own [OF assms(2-5)] csum_rfc [of "insert_csum pkt k c"] assms(1)
    by (simp add: insert_csum_def)
qed

lemma single_byte_change_detected:
  assumes "length pkt \<le> max_len" "csum pkt = Some 0" "i < length pkt" "b \<noteq> pkt ! i"
  shows "\<exists>c. csum (pkt[i := b]) = Some c \<and> c \<noteq> 0"
proof -
  have "rfc1071 pkt = 0" using assms(1,2) csum_rfc by simp
  then show ?thesis
    using rfc1071_detects [OF _ assms(3,4)] csum_rfc [of "pkt[i := b]"] assms(1) by simp
qed

end

interpretation raw_csum: inet_checksum "\<lambda>pkt. checksum pkt (int (length pkt))" 65536
  by unfold_locales (use checksum_eq [OF order_refl] word_sum_int_safe in auto)

interpretation ping_csum: inet_checksum "\<lambda>pkt. ping_checksum pkt (int (length pkt))" 131072
  by unfold_locales (use ping_checksum_eq [OF order_refl] in auto)

interpretation tr_csum: inet_checksum "\<lambda>pkt. tr_checksum pkt (int (length pkt))" 131072
  by unfold_locales
    (use ping_checksum_eq [OF order_refl] in \<open>auto simp: tr_checksum_is_ping_checksum\<close>)

section \<open>The sniffer's copy\<close>

lemma sum_words32_eq:
  assumes "n \<le> length w"
  shows "sum_words32 w (int n) acc =
    Some (int (n mod 2), acc + word_of_nat (word_sum (take (2 * (n div 2)) w)))"
  using assms
proof (induction n arbitrary: w acc rule: less_induct)
  case (less n)
  show ?case
  proof (cases "n < 2")
    case True
    then show ?thesis by (subst sum_words32.simps) (auto simp: less_2_cases_iff)
  next
    case False
    with less.prems obtain a b v where w: "w = a # b # v"
      by (cases w rule: words_of.cases) auto
    obtain m where n: "n = Suc (Suc m)"
      using False by (metis One_nat_def Suc_1 add_2_eq_Suc le_Suc_ex not_less)
    have "sum_words32 w (int n) acc = sum_words32 v (int m) (acc + ucast (word16_of a b))"
      by (subst sum_words32.simps) (simp add: w n)
    also have "\<dots> = Some (int (m mod 2), acc + ucast (word16_of a b)
        + word_of_nat (word_sum (take (2 * (m div 2)) v)))"
      by (rule less.IH) (use n w less.prems in auto)
    finally show ?thesis
      by (simp add: n w add.assoc)
  qed
qed

text \<open>
  With the accumulator cleared, the sniffer's copy is the reference on ranges of even length.
\<close>

lemma fold_word32:
  fixes w :: u32
  shows "(let acc = drop_bit 16 w + (w AND 0xFFFF); acc = acc + drop_bit 16 acc
          in (ucast (NOT acc) :: u16)) = NOT (word_of_nat (norm16 (unat w)))"
proof -
  let ?s = "unat w"
  let ?t = "?s div 65536 + ?s mod 65536"
  let ?w = "drop_bit 16 w + (w AND 0xFFFF)"
  have "w AND 0xFFFF = take_bit 16 w" by (simp add: take_bit_eq_mask mask_eq_exp_minus_1)
  moreover have "?s < 2 ^ 32" using unsigned_less [of w] by simp
  moreover from this have "?s div 65536 < 65536" by (simp add: less_mult_imp_div_less)
  ultimately have t: "unat ?w = ?t"
    by (simp add: unat_word_ariths unsigned_drop_bit_eq unsigned_take_bit_eq
        drop_bit_eq_div take_bit_eq_mod)
  have "?t < 2 * 65536"
    using \<open>?s div 65536 < 65536\<close> mod_less_divisor [of 65536 ?s] by linarith
  moreover from this have "?t div 65536 < 2" by (rule less_mult_imp_div_less)
  ultimately have "?t + ?t div 65536 < 2 ^ 32" by simp
  moreover have "unat (x + drop_bit 16 x) = (unat x + unat x div 65536) mod 2 ^ 32"
    for x :: u32
    by (simp only: unat_word_ariths(1) unat_drop_bit_eq) (simp add: drop_bit_eq_div)
  ultimately have "unat (?w + drop_bit 16 ?w) = ?t + ?t div 65536"
    by (simp only: t) simp
  then have "unat (?w + drop_bit 16 ?w) mod 65536 = norm16 ?s"
    using fold_twice [OF \<open>?s < 2 ^ 32\<close>] by simp
  moreover have "(ucast (NOT x) :: u16) = NOT (word_of_nat (unat x mod 65536))" for x :: u32
  proof -
    have "unat x mod 65536 = take_bit 16 (unat x)" by (simp add: take_bit_eq_mod)
    then show ?thesis by (simp only:) (rule bit_word_eqI, simp add: bit_simps)
  qed
  ultimately show ?thesis by (simp add: Let_def)
qed

lemma check_sum_even:
  assumes "even n" "n \<le> length buf" "unat sum0 + word_sum (take n buf) < 2 ^ 32"
  shows "check_sum sum0 buf (int n) =
    Some (NOT (word_of_nat (norm16 (unat sum0 + word_sum (take n buf)))))"
proof -
  let ?s = "word_sum (take n buf)"
  have n: "2 * (n div 2) = n" "n mod 2 = 0" using assms(1) by auto
  have "unat (sum0 + word_of_nat ?s) = unat sum0 + ?s"
    using assms(3) by (simp add: unat_word_ariths unat_of_nat)
  then show ?thesis
    using fold_word32 [of "sum0 + word_of_nat ?s"]
    by (simp add: check_sum_def sum_words32_eq [OF assms(2)] n Let_def)
qed

lemma word_sum_ones: "word_sum (replicate (2 * k) 255) = 65535 * k"
  by (induction k) (simp_all add: unat_word16_of)

lemma sum_words_overread':
  assumes "int (length w) < n"
  shows "do { (v, l, acc) \<leftarrow> sum_words lim w n 0;
              acc \<leftarrow> (if l = 1 then do { c \<leftarrow> ld8 v 0; add_signed lim acc (uint (word16_of c 0)) }
                     else Some acc);
              f acc } = None"
proof (cases "1 < n")
  case True
  from sum_words_overread [OF assms True, of lim 0] show ?thesis by (auto simp: ld8_def)
next
  case False
  with assms have "n = 1" "length w = 0" by linarith+
  then show ?thesis by (simp add: sum_words_stop ld8_def)
qed

section \<open>Properties\<close>

text \<open>
  The raw socket checksum, on every buffer and every length: the RFC 1071 checksum of the
  first \<open>n\<close> bytes, provided the buffer has them and the plain sum of their 16-bit words stays
  below \<open>2 ^ 31\<close>; otherwise the code reads outside the buffer or overflows its \<^verbatim>\<open>int\<close>.
\<close>

lemma checksum_functional:
  "checksum buf (int n) =
     (if n \<le> length buf \<and> word_sum (take n buf) < 2 ^ 31
      then Some (rfc1071 (take n buf)) else None)"
proof (cases "n \<le> length buf")
  case True
  then show ?thesis by (simp add: checksum_eq)
next
  case False
  then show ?thesis unfolding checksum_def by (subst sum_words_overread') auto
qed

text \<open>
  C8. On packets of up to 65536 bytes, which covers every IPv4 packet, no copy overflows and
  all of them return the RFC 1071 checksum: the raw socket's, ping's, traceroute's, and the
  sniffer's where the length is even and its accumulator happens to start at zero.
\<close>

theorem checksums_agree:
  assumes "n \<le> length buf" "n \<le> 65536"
  shows "checksum buf (int n) = Some (rfc1071 (take n buf))
    \<and> ping_checksum buf (int n) = Some (rfc1071 (take n buf))
    \<and> tr_checksum buf (int n) = Some (rfc1071 (take n buf))
    \<and> (even n \<longrightarrow> check_sum 0 buf (int n) = Some (rfc1071 (take n buf)))"
proof -
  have "word_sum (take n buf) < 2 ^ 31"
    by (rule word_sum_int_safe) (use assms in simp)
  then show ?thesis
    using assms ping_checksum_eq [of n buf] check_sum_even [of n buf 0]
    by (auto simp: checksum_eq tr_checksum_is_ping_checksum rfc1071_eq)
qed

theorem checksums_agree_witness:
  "(2::nat) \<le> length [0x45, 0x00 :: byte] \<and>
   checksum [0x45, 0x00] (int 2) = Some (rfc1071 [0x45, 0x00]) \<and>
   check_sum 0 [0x45, 0x00] (int 2) = Some (rfc1071 [0x45, 0x00])"
  using checksums_agree [of 2 "[0x45, 0x00]"] by simp

text \<open>
  The \<^verbatim>\<open>int\<close> accumulator of the raw socket checksum does overflow beyond that: on 65538
  bytes or more of \<^verbatim>\<open>0xff\<close> (an even number of them) the behaviour is undefined.
\<close>

lemma checksum_int_overflow:
  "32769 \<le> k \<Longrightarrow> checksum (replicate (2 * k) 255) (int (2 * k)) = None"
  by (simp only: checksum_functional) (simp add: word_sum_ones)

lemma checksum_int_overflow_witness:
  "(32769::nat) \<le> 32769 \<and> checksum (replicate (2 * 32769) 255) (int (2 * 32769)) = None"
  using checksum_int_overflow [of 32769] by blast

text \<open>
  C9. A packet whose (even) checksum field holds the checksum computed over it with that field
  zero sums to zero at the receiver; changing any one byte of it no longer does.
\<close>

theorem raw_checksum_verifies:
  assumes "length pkt \<le> 65536" "even k" "k + 1 < length pkt"
    and "pkt ! k = 0" "pkt ! (k + 1) = 0"
    and "checksum pkt (int (length pkt)) = Some c"
  shows "checksum (insert_csum pkt k c) (int (length pkt)) = Some 0
    \<and> (\<forall>i < length pkt. \<forall>b. b \<noteq> insert_csum pkt k c ! i \<longrightarrow>
         (\<exists>d. checksum ((insert_csum pkt k c)[i := b]) (int (length pkt)) = Some d \<and> d \<noteq> 0))"
proof -
  have len: "length (insert_csum pkt k c) = length pkt" by (simp add: insert_csum_def)
  have own: "checksum (insert_csum pkt k c) (int (length (insert_csum pkt k c))) = Some 0"
    by (rule raw_csum.own_checksum_verifies) (use assms in auto)
  show ?thesis
    using own raw_csum.single_byte_change_detected [OF _ own] assms(1)
    unfolding len length_list_update by blast
qed

theorem raw_checksum_verifies_witness:
  "checksum (insert_csum [8, 0, 0, 0] 2 0xFFF7) 4 = Some 0"
proof -
  have "checksum [8, 0, 0, 0] (int (length [8, 0, 0, 0 :: byte])) = Some 0xFFF7" by code_simp
  from raw_checksum_verifies [of "[8, 0, 0, 0]" 2, OF _ _ _ _ _ this] show ?thesis by simp
qed

text \<open>
  The sniffer adds the packet to whatever value its uninitialised accumulator has, so the
  result on one and the same header depends on the stack, and for odd lengths it sums the first
  byte of the buffer again where the last one belongs.
\<close>

lemma sniffer_check_sum_defects:
  assumes "even n" "n \<le> length buf" "unat sum0 + word_sum (take n buf) < 2 ^ 32"
  shows "check_sum sum0 buf (int n) =
        Some (NOT (word_of_nat (norm16 (unat sum0 + word_sum (take n buf)))))
   \<and> check_sum 1 [0, 0] 2 \<noteq> check_sum 0 [0, 0] 2
   \<and> check_sum 0 [1, 0, 2] 3 \<noteq> Some (rfc1071 [1, 0, 2])"
proof (intro conjI)
  show "check_sum 1 [0, 0] 2 \<noteq> check_sum 0 [0, 0] 2"
    using check_sum_even [of 2 "[0, 0]" 1] check_sum_even [of 2 "[0, 0]" 0]
    by (simp add: norm16_def word16_of_def)
  show "check_sum 0 [1, 0, 2] 3 \<noteq> Some (rfc1071 [1, 0, 2])"
    by (simp add: check_sum_def sum_words32.simps word16_of_def ld8_def rfc1071_def ones_add_def)
qed (rule check_sum_even [OF assms])

lemma sniffer_check_sum_defects_witness:
  "check_sum 5 [1, 0] 2 = Some 0xFFF9 \<and> check_sum 0 [1, 0] 2 = Some 0xFFFE"
  using sniffer_check_sum_defects [of 2 "[1, 0]" 5] sniffer_check_sum_defects [of 2 "[1, 0]" 0]
  by (simp add: norm16_def word16_of_def)

end
