(* ===== verification/DnsTree.thy ===== *)
theory DnsTree
  imports Prelude "HOL-Library.Tree"
begin

text \<open>
  The answer cache of core/netfilter/proxy\_server: the red-black tree of \<^verbatim>\<open>struct dns_node\<close>,
  its \<open>search\<close> and its \<open>insert\<close> (here \<open>dns_insert\<close>, since HOL has an \<open>insert\<close>).

  The tree is intrusive: an \<^verbatim>\<open>rb_node\<close> carries the links, which are the constructors of
  \<^typ>\<open>'a tree\<close>, and a colour word that only the kernel's rbtree library reads; it is the
  opaque component \<open>'c\<close> of a node. The kernel's \<open>rb_insert_color\<close> is not part of the repository.
  It is a parameter, and what the code relies on is the assumption of the locale \<open>rb_library\<close>:
  recolouring and rotating keep the left-to-right order of the nodes. The locale \<open>dns_store\<close> is
  what the packet hooks rely on: a finite map from host names to the first answer seen.
\<close>

section \<open>The code\<close>

record dns_node =
  host_name :: "byte list"
  addr :: u32
  ttl :: u32

type_synonym 'c rb_root = "('c \<times> dns_node) tree"

fun search :: "'c rb_root \<Rightarrow> byte list \<Rightarrow> dns_node option option" where
  "search Leaf string = Some None"
| "search (Node l (c, data) r) string = do {
     result \<leftarrow> strcmp string (host_name data);
     if result < 0 then search l string
     else if result > 0 then search r string
     else Some (Some data)
   }"

text \<open>
  The loop of \<open>insert\<close> walks down to the empty link and \<open>rb_link_node\<close> hangs the node there,
  with the colour word \<open>c0\<close> that it gives a fresh node; the loop returns 0 on an equal name.
\<close>

fun link_node :: "'c \<Rightarrow> 'c rb_root \<Rightarrow> dns_node \<Rightarrow> (int \<times> 'c rb_root) option" where
  "link_node c0 Leaf data = Some (1, Node Leaf (c0, data) Leaf)"
| "link_node c0 (Node l (c, this) r) data = do {
     result \<leftarrow> strcmp (host_name data) (host_name this);
     if result < 0 then do { (k, l') \<leftarrow> link_node c0 l data; Some (k, Node l' (c, this) r) }
     else if result > 0 then do { (k, r') \<leftarrow> link_node c0 r data; Some (k, Node l (c, this) r') }
     else Some (0, Node l (c, this) r)
   }"

definition dns_insert ::
  "(dns_node \<Rightarrow> 'c rb_root \<Rightarrow> 'c rb_root) \<Rightarrow> 'c \<Rightarrow> 'c rb_root \<Rightarrow> dns_node
   \<Rightarrow> (int \<times> 'c rb_root) option" where
  "dns_insert rb_insert_color c0 root data = do {
     (k, root') \<leftarrow> link_node c0 root data;
     if k = 0 then Some (0, root)
     else Some (1, rb_insert_color data root')
   }"

section \<open>Invariant and abstraction\<close>

abbreviation name_of :: "dns_node \<Rightarrow> byte list" where
  "name_of d \<equiv> cstr (host_name d)"

definition nodes :: "'c rb_root \<Rightarrow> dns_node list" where
  "nodes t = map snd (inorder t)"

text \<open>Every stored name is terminated, and names increase strictly from left to right.\<close>

definition tree_ok :: "'c rb_root \<Rightarrow> bool" where
  "tree_ok t \<longleftrightarrow> (\<forall>d \<in> set (nodes t). terminated (host_name d))
               \<and> sorted_wrt (<) (map name_of (nodes t))"

definition cached :: "'c rb_root \<Rightarrow> byte list \<Rightarrow> dns_node option" where
  "cached t = map_of (map (\<lambda>d. (name_of d, d)) (nodes t))"

lemma nodes_simps [simp]:
  "nodes Leaf = []" "nodes (Node l (c, d) r) = nodes l @ d # nodes r"
  by (simp_all add: nodes_def)

lemma tree_ok_Node:
  "tree_ok (Node l (c, d) r) \<longleftrightarrow> tree_ok l \<and> tree_ok r \<and> terminated (host_name d)
     \<and> (\<forall>x \<in> set (nodes l). name_of x < name_of d)
     \<and> (\<forall>y \<in> set (nodes r). name_of d < name_of y)"
  by (auto simp: tree_ok_def sorted_wrt_append intro: order.strict_trans)

lemma cached_None_iff: "cached t k = None \<longleftrightarrow> k \<notin> name_of ` set (nodes t)"
  by (auto simp: cached_def map_of_eq_None_iff image_image)

lemma cached_nodes: "nodes t' = nodes t \<Longrightarrow> cached t' = cached t"
  by (simp add: cached_def)

lemma cached_Node:
  "cached (Node l (c, d) r) k =
     (case cached l k of Some e \<Rightarrow> Some e
      | None \<Rightarrow> if k = name_of d then Some d else cached r k)"
  by (auto simp: cached_def map_add_def split: option.splits)

lemma cached_name: "cached t k = Some d \<Longrightarrow> d \<in> set (nodes t) \<and> name_of d = k"
  by (auto simp: cached_def dest: map_of_SomeD)

lemma search_cached:
  "tree_ok t \<Longrightarrow> terminated s \<Longrightarrow> search t s = Some (cached t (cstr s))"
proof (induction t s rule: search.induct)
  case (1 s)
  then show ?case by (simp add: cached_def)
next
  case (2 l c d r s)
  have l: "cached l (cstr s) = None" if "\<not> cstr s < name_of d"
    using that "2.prems" by (auto simp: cached_None_iff tree_ok_Node)
  have r: "cached r (cstr s) = None" if "\<not> name_of d < cstr s"
    using that "2.prems" by (auto simp: cached_None_iff tree_ok_Node)
  show ?case
    using 2 l r
    by (auto simp: tree_ok_Node strcmp_eq cached_Node split: option.splits)
qed

text \<open>Linking puts the node between the smaller and the larger names and moves nothing else.\<close>

definition linked :: "'c rb_root \<Rightarrow> 'c rb_root \<Rightarrow> dns_node \<Rightarrow> bool" where
  "linked t t' d \<longleftrightarrow> (\<exists>xs ys. nodes t = xs @ ys \<and> nodes t' = xs @ d # ys
     \<and> (\<forall>x \<in> set xs. name_of x < name_of d) \<and> (\<forall>y \<in> set ys. name_of d < name_of y))"

lemma linked_left:
  assumes "linked l l' d" "name_of d < name_of e" "\<forall>y \<in> set (nodes r). name_of e < name_of y"
  shows "linked (Node l (c, e) r) (Node l' (c, e) r) d"
proof -
  from assms(1) obtain xs ys where *: "nodes l = xs @ ys" "nodes l' = xs @ d # ys"
    "\<forall>x \<in> set xs. name_of x < name_of d" "\<forall>y \<in> set ys. name_of d < name_of y"
    by (auto simp: linked_def)
  have "\<forall>y \<in> set (ys @ e # nodes r). name_of d < name_of y"
    using * assms(2,3) by (auto intro: order.strict_trans)
  with * show ?thesis
    unfolding linked_def by (intro exI [of _ xs] exI [of _ "ys @ e # nodes r"]) simp
qed

lemma linked_right:
  assumes "linked r r' d" "name_of e < name_of d" "\<forall>x \<in> set (nodes l). name_of x < name_of e"
  shows "linked (Node l (c, e) r) (Node l (c, e) r') d"
proof -
  from assms(1) obtain xs ys where *: "nodes r = xs @ ys" "nodes r' = xs @ d # ys"
    "\<forall>x \<in> set xs. name_of x < name_of d" "\<forall>y \<in> set ys. name_of d < name_of y"
    by (auto simp: linked_def)
  have "\<forall>x \<in> set (nodes l @ e # xs). name_of x < name_of d"
    using * assms(2,3) by (auto intro: order.strict_trans)
  with * show ?thesis
    unfolding linked_def by (intro exI [of _ "nodes l @ e # xs"] exI [of _ ys]) simp
qed

text \<open>One step of the descent: the comparison, and where an entry then is.\<close>

lemma strcmp_names:
  "terminated (host_name d) \<Longrightarrow> terminated (host_name e) \<Longrightarrow>
   strcmp (host_name d) (host_name e) =
     Some (if name_of d < name_of e then -1 else if name_of e < name_of d then 1 else 0)"
  by (simp add: strcmp_eq)

lemma cached_left:
  assumes "tree_ok (Node l (c, e) r)" "n < name_of e"
  shows "cached (Node l (c, e) r) n = cached l n"
proof -
  have "cached r n = None" using assms by (auto simp: tree_ok_Node cached_None_iff)
  then show ?thesis using assms(2) by (auto simp: cached_Node split: option.splits)
qed

lemma cached_right:
  assumes "tree_ok (Node l (c, e) r)" "name_of e < n"
  shows "cached (Node l (c, e) r) n = cached r n"
proof -
  have "cached l n = None" using assms by (auto simp: tree_ok_Node cached_None_iff)
  then show ?thesis using assms(2) by (auto simp: cached_Node)
qed

lemma link_node_cases:
  assumes "tree_ok t" "terminated (host_name d)"
  shows "(cached t (name_of d) \<noteq> None \<longrightarrow> (\<exists>t'. link_node c0 t d = Some (0, t')))
       \<and> (cached t (name_of d) = None \<longrightarrow> (\<exists>t'. link_node c0 t d = Some (1, t') \<and> linked t t' d))"
  using assms
proof (induction c0 t d rule: link_node.induct)
  case (1 c0 data)
  then show ?case by (simp add: cached_def linked_def)
next
  case (2 c0 l c this r data)
  note ok = "2.prems"(1) [unfolded tree_ok_Node]
  have "terminated (host_name this)" using ok by simp
  note cmp = strcmp_names [OF "2.prems"(2) this]
  consider (lt) "name_of data < name_of this" | (gt) "name_of this < name_of data"
    | (eq) "name_of data = name_of this" by fastforce
  then show ?case
  proof cases
    case lt
    note c = cached_left [OF "2.prems"(1) lt]
    show ?thesis
    proof (cases "cached l (name_of data)")
      case None
      then obtain t' where "link_node c0 l data = Some (1, t')" "linked l t' data"
        using "2.IH"(1) [OF cmp] lt ok "2.prems"(2) by auto
      then show ?thesis using None c cmp lt ok linked_left [of l t' data this] by auto
    next
      case (Some e)
      then obtain t' where "link_node c0 l data = Some (0, t')"
        using "2.IH"(1) [OF cmp] lt ok "2.prems"(2) by auto
      then show ?thesis using Some c cmp lt by auto
    qed
  next
    case gt
    have nlt: "\<not> name_of data < name_of this" using gt less_not_sym by blast
    note c = cached_right [OF "2.prems"(1) gt]
    show ?thesis
    proof (cases "cached r (name_of data)")
      case None
      then obtain t' where "link_node c0 r data = Some (1, t')" "linked r t' data"
        using "2.IH"(2) [OF cmp] gt nlt ok "2.prems"(2) by auto
      then show ?thesis using None c cmp gt nlt ok linked_right [of r t' data this] by auto
    next
      case (Some e)
      then obtain t' where "link_node c0 r data = Some (0, t')"
        using "2.IH"(2) [OF cmp] gt nlt ok "2.prems"(2) by auto
      then show ?thesis using Some c cmp gt nlt by auto
    qed
  next
    case eq
    then show ?thesis using cmp by (auto simp: cached_Node split: option.splits)
  qed
qed

lemma linked_tree_ok:
  assumes "tree_ok t" "terminated (host_name d)" "linked t t' d"
  shows "tree_ok t'"
proof -
  from assms(3) obtain xs ys where *: "nodes t = xs @ ys" "nodes t' = xs @ d # ys"
    "\<forall>x \<in> set xs. name_of x < name_of d" "\<forall>y \<in> set ys. name_of d < name_of y"
    by (auto simp: linked_def)
  with assms(1,2) show ?thesis
    by (auto simp: tree_ok_def sorted_wrt_append)
qed

lemma linked_cached:
  assumes "linked t t' d"
  shows "cached t' = (cached t)(name_of d \<mapsto> d)"
proof
  fix k
  from assms obtain xs ys where *: "nodes t = xs @ ys" "nodes t' = xs @ d # ys"
    "\<forall>x \<in> set xs. name_of x < name_of d" "\<forall>y \<in> set ys. name_of d < name_of y"
    by (auto simp: linked_def)
  then have "map_of (map (\<lambda>d. (name_of d, d)) xs) (name_of d) = None"
    by (force simp: map_of_eq_None_iff)
  with * show "cached t' k = ((cached t)(name_of d \<mapsto> d)) k"
    by (auto simp: cached_def map_add_def split: option.splits)
qed

section \<open>What the packet hooks rely on\<close>

text \<open>
  A store of DNS answers: an answer for a new name is kept, an answer for a known name is
  refused with 0 and changes nothing.
\<close>

text \<open>A whole sequence of answers, put into a store one after the other.\<close>

fun store_all :: "('s \<Rightarrow> dns_node \<Rightarrow> (int \<times> 's) option) \<Rightarrow> 's \<Rightarrow> dns_node list \<Rightarrow> 's option" where
  "store_all store s [] = Some s"
| "store_all store s (d # ds) =
     (case store s d of None \<Rightarrow> None | Some (k, s') \<Rightarrow> store_all store s' ds)"

locale dns_store =
  fixes empty :: 's
    and lookup :: "'s \<Rightarrow> byte list \<Rightarrow> dns_node option option"
    and store :: "'s \<Rightarrow> dns_node \<Rightarrow> (int \<times> 's) option"
    and invar :: "'s \<Rightarrow> bool"
    and contents :: "'s \<Rightarrow> byte list \<Rightarrow> dns_node option"
  assumes invar_empty: "invar empty"
    and contents_empty: "contents empty = Map.empty"
    and lookup_contents: "invar s \<Longrightarrow> terminated n \<Longrightarrow> lookup s n = Some (contents s (cstr n))"
    and store_known: "invar s \<Longrightarrow> terminated (host_name d) \<Longrightarrow> contents s (name_of d) \<noteq> None \<Longrightarrow>
           store s d = Some (0, s)"
    and store_new: "invar s \<Longrightarrow> terminated (host_name d) \<Longrightarrow> contents s (name_of d) = None \<Longrightarrow>
           \<exists>s'. store s d = Some (1, s') \<and> invar s' \<and> contents s' = (contents s)(name_of d \<mapsto> d)"
begin

lemma store_returns:
  assumes "invar s" "terminated (host_name d)"
  obtains k s' where "store s d = Some (k, s')" "invar s'"
    "contents s' = (if contents s (name_of d) = None then (contents s)(name_of d \<mapsto> d) else contents s)"
    "k = (if contents s (name_of d) = None then 1 else 0)"
proof (cases "contents s (name_of d)")
  case None
  with store_new [OF assms] that show thesis by fastforce
next
  case (Some e)
  with store_known [OF assms] that [of 0 s] assms(1) show thesis by simp
qed

lemma lookup_after_store:
  assumes "invar s" "terminated (host_name d)" "store s d = Some (k, s')" "terminated n"
  shows "lookup s' n = (if cstr n = name_of d \<and> k = 1 then Some (Some d) else lookup s n)"
proof -
  from store_returns [OF assms(1,2)] obtain k' s'' where
    *: "store s d = Some (k', s'')" "invar s''"
    "contents s'' = (if contents s (name_of d) = None then (contents s)(name_of d \<mapsto> d)
                     else contents s)"
    "k' = (if contents s (name_of d) = None then 1 else 0)" by metis
  with assms(3) have "s'' = s'" "k' = k" by simp_all
  with * assms(1,4) show ?thesis by (auto simp: lookup_contents)
qed

lemma store_all_contents:
  assumes "invar s" "\<forall>d \<in> set ds. terminated (host_name d)"
  shows "\<exists>s'. store_all store s ds = Some s' \<and> invar s'
    \<and> contents s' = map_of (map (\<lambda>d. (name_of d, d)) ds) ++ contents s"
  using assms
proof (induction ds arbitrary: s)
  case (Cons d ds)
  from Cons.prems obtain k t where *: "store s d = Some (k, t)" "invar t"
    "contents t = (if contents s (name_of d) = None then (contents s)(name_of d \<mapsto> d)
                   else contents s)"
    by (elim store_returns [of s d]) auto
  have "map_of (map (\<lambda>d. (name_of d, d)) ds) ++ contents t
      = map_of (map (\<lambda>d. (name_of d, d)) (d # ds)) ++ contents s"
    using *(3) by (auto simp: map_add_def fun_eq_iff split: option.splits if_splits)
  moreover obtain s' where "store_all store t ds = Some s'" "invar s'"
    "contents s' = map_of (map (\<lambda>d. (name_of d, d)) ds) ++ contents t"
    using Cons.IH [OF *(2)] Cons.prems(2) by auto
  ultimately show ?case
    using *(1) by (intro exI [of _ s'] conjI) (simp_all only: store_all.simps option.case prod.case)
qed simp

lemma first_answer_wins:
  assumes "\<forall>d \<in> set ds. terminated (host_name d)" "terminated n"
  shows "\<exists>s. store_all store empty ds = Some s
    \<and> lookup s n = Some (List.find (\<lambda>d. name_of d = cstr n) ds)"
proof -
  obtain s where *: "store_all store empty ds = Some s" "invar s"
    "contents s = map_of (map (\<lambda>d. (name_of d, d)) ds)"
    using store_all_contents [OF invar_empty assms(1)] by (auto simp: contents_empty)
  have "map_of (map (\<lambda>d. (name_of d, d)) ds) (cstr n) = List.find (\<lambda>d. name_of d = cstr n) ds"
    by (induction ds) auto
  with * assms(2) show ?thesis by (auto simp: lookup_contents)
qed

end

text \<open>The kernel's rebalancing: what the code uses of it.\<close>

locale rb_library =
  fixes rb_insert_color :: "dns_node \<Rightarrow> 'c rb_root \<Rightarrow> 'c rb_root"
  assumes keeps_order: "nodes (rb_insert_color d t) = nodes t"

sublocale rb_library \<subseteq> dns: dns_store Leaf search "dns_insert rb_insert_color c0" tree_ok cached
proof unfold_locales
  show "tree_ok Leaf" "cached Leaf = Map.empty"
    by (simp_all add: tree_ok_def cached_def)
next
  fix t n
  show "tree_ok t \<Longrightarrow> terminated n \<Longrightarrow> search t n = Some (cached t (cstr n))"
    by (rule search_cached)
next
  fix t :: "'c rb_root" and d :: dns_node
  assume *: "tree_ok t" "terminated (host_name d)"
  show "cached t (name_of d) \<noteq> None \<Longrightarrow> dns_insert rb_insert_color c0 t d = Some (0, t)"
    using link_node_cases [OF *, of c0] by (auto simp: dns_insert_def)
  show "\<exists>t'. dns_insert rb_insert_color c0 t d = Some (1, t') \<and> tree_ok t'
      \<and> cached t' = (cached t)(name_of d \<mapsto> d)" if new: "cached t (name_of d) = None"
  proof -
    from link_node_cases [OF *, of c0] new obtain t' where
      t': "link_node c0 t d = Some (1, t')" "linked t t' d" by auto
    have same: "nodes (rb_insert_color d t') = nodes t'" by (rule keeps_order)
    have "tree_ok (rb_insert_color d t')"
      using linked_tree_ok [OF * t'(2)] same by (simp add: tree_ok_def)
    moreover have "cached (rb_insert_color d t') = (cached t)(name_of d \<mapsto> d)"
      using linked_cached [OF t'(2)] cached_nodes [OF same] by simp
    ultimately show ?thesis using t'(1) by (simp add: dns_insert_def)
  qed
qed

context rb_library
begin

lemmas cache_laws = dns.lookup_contents dns.store_known dns.store_new

lemma cache_first_answer:
  assumes "\<forall>d \<in> set ds. terminated (host_name d)" "terminated n"
  shows "\<exists>t. store_all (dns_insert rb_insert_color c0) Leaf ds = Some t
    \<and> search t n = Some (List.find (\<lambda>d. name_of d = cstr n) ds)"
  by (rule dns.first_answer_wins [OF assms])

end

text \<open>
  A concrete rebalancing that meets the assumption, for the witnesses: the right rotation that
  the kernel's routine performs at the root for two red nodes in a row on the left.
\<close>

fun rotate_right :: "dns_node \<Rightarrow> bool rb_root \<Rightarrow> bool rb_root" where
  "rotate_right d (Node (Node (Node a (True, x) b) (True, y) c) (False, z) e) =
     Node (Node a (True, x) b) (False, y) (Node c (True, z) e)"
| "rotate_right d t = t"

lemma nodes_rotate_right: "nodes (rotate_right d t) = nodes t"
  by (induction d t rule: rotate_right.induct) simp_all

interpretation rotating: rb_library rotate_right
  by unfold_locales (rule nodes_rotate_right)

section \<open>Properties\<close>

text \<open>
  C1. The cache refines a finite map, whatever order-keeping rebalancing the kernel does: on a
  well-formed tree \<open>search\<close> returns what the map has for the name; \<open>insert\<close> of an unknown name
  returns 1, keeps the tree well-formed and adds exactly that entry; \<open>insert\<close> of a known name
  returns 0 and changes nothing.
\<close>

theorem cache_refines_map:
  assumes "rb_library rb" "tree_ok t" "terminated n" "terminated (host_name d)"
  shows "search t n = Some (cached t (cstr n))
    \<and> (cached t (name_of d) \<noteq> None \<longrightarrow> dns_insert rb c0 t d = Some (0, t))
    \<and> (cached t (name_of d) = None \<longrightarrow>
         (\<exists>t'. dns_insert rb c0 t d = Some (1, t') \<and> tree_ok t'
             \<and> cached t' = (cached t)(name_of d \<mapsto> d)))"
  using rb_library.cache_laws [OF assms(1)] assms(2-4) by blast

theorem cache_refines_map_witness:
  "search (Node Leaf (False, \<lparr>host_name = [1, 97, 0], addr = 7, ttl = 60\<rparr>) Leaf) [1, 97, 0, 5]
     = Some (Some \<lparr>host_name = [1, 97, 0], addr = 7, ttl = 60\<rparr>)"
proof -
  let ?d = "\<lparr>host_name = [1, 97, 0], addr = 7, ttl = 60\<rparr>"
  have "tree_ok (Node Leaf (False, ?d) Leaf)" by (simp add: tree_ok_def)
  from cache_refines_map [OF rotating.rb_library_axioms this, of "[1, 97, 0, 5]" ?d]
  show ?thesis by (simp add: cached_def)
qed

text \<open>
  For every sequence of answers, all of them are put in without an invalid access and each
  name is afterwards answered by the first answer that was seen for it.
\<close>

lemma first_dns_answer_wins:
  assumes "rb_library rb" "\<forall>d \<in> set ds. terminated (host_name d)" "terminated n"
  shows "\<exists>t. store_all (dns_insert rb c0) Leaf ds = Some t
    \<and> search t n = Some (List.find (\<lambda>d. name_of d = cstr n) ds)"
  using assms by (rule rb_library.cache_first_answer)

lemma first_dns_answer_wins_witness:
  "\<exists>t. store_all (dns_insert rotate_right True) Leaf
         [\<lparr>host_name = [1, 97, 0], addr = 7, ttl = 60\<rparr>, \<lparr>host_name = [1, 97, 0], addr = 8, ttl = 9\<rparr>]
       = Some t
     \<and> search t [1, 97, 0] = Some (Some \<lparr>host_name = [1, 97, 0], addr = 7, ttl = 60\<rparr>)"
  using first_dns_answer_wins [OF rotating.rb_library_axioms, of
      "[\<lparr>host_name = [1, 97, 0], addr = 7, ttl = 60\<rparr>, \<lparr>host_name = [1, 97, 0], addr = 8, ttl = 9\<rparr>]"
      "[1, 97, 0]" True]
  by simp

end
