(* ===== verification/Netfilter.thy ===== *)
theory Netfilter
  imports Prelude
begin

text \<open>
  Packets as the netfilter modules see them, and the first module, core/netfilter/port\_block.

  A \<^verbatim>\<open>struct sk_buff\<close> belongs to the kernel; the modules use its linear buffer (\<open>skb_mem\<close>,
  from \<^verbatim>\<open>skb->data\<close> to the end of the allocation), the places in it that \<^verbatim>\<open>ip_hdr\<close> and
  \<^verbatim>\<open>udp_hdr\<close>/\<^verbatim>\<open>tcp_hdr\<close> point to, its length, the end of its data (\<open>skb_tail\<close>), the attached
  route and the device. Header fields are at the offsets that the
  protocols fix (RFC 791, 768, 793). A hook that reads or writes outside the linear buffer is
  \<^const>\<open>None\<close>.
\<close>

section \<open>Packets\<close>

record sk_buff =
  skb_mem :: "byte list"
  network_header :: nat
  transport_header :: nat
  skb_len :: u32
  skb_tail :: nat
  skb_rtable :: "nat option"
  skb_dev :: "nat option"

datatype verdict = NF_DROP | NF_ACCEPT

abbreviation (input) IPPROTO_ICMP :: byte where "IPPROTO_ICMP \<equiv> 1"
abbreviation (input) IPPROTO_TCP :: byte where "IPPROTO_TCP \<equiv> 6"
abbreviation (input) IPPROTO_UDP :: byte where "IPPROTO_UDP \<equiv> 17"

text \<open>Offsets in \<^verbatim>\<open>struct iphdr\<close> and in \<^verbatim>\<open>struct udphdr\<close>/\<^verbatim>\<open>tcphdr\<close>.\<close>

abbreviation (input) ip_tot_len_off :: nat where "ip_tot_len_off \<equiv> 2"
abbreviation (input) ip_protocol_off :: nat where "ip_protocol_off \<equiv> 9"
abbreviation (input) ip_saddr_off :: nat where "ip_saddr_off \<equiv> 12"
abbreviation (input) ip_daddr_off :: nat where "ip_daddr_off \<equiv> 16"
abbreviation (input) l4_source_off :: nat where "l4_source_off \<equiv> 0"
abbreviation (input) l4_dest_off :: nat where "l4_dest_off \<equiv> 2"
abbreviation (input) udp_len_off :: nat where "udp_len_off \<equiv> 4"

section \<open>port\_block: the module\<close>

text \<open>
  The module's state is the port it blocks, zero until it is set, and the hooks that the kernel
  calls. Loading is a sequence of steps, and packets can arrive between any two of them.
\<close>

datatype hooknum = NF_INET_PRE_ROUTING | NF_INET_LOCAL_IN | NF_INET_POST_ROUTING

record nf_module =
  nf_port :: u16
  nf_hooks :: "hooknum list"

datatype nf_step = Set_Port u16 | Register hooknum | Unregister hooknum

fun nf_do :: "nf_module \<Rightarrow> nf_step \<Rightarrow> nf_module" where
  "nf_do s (Set_Port p) = s\<lparr>nf_port := p\<rparr>"
| "nf_do s (Register h) = s\<lparr>nf_hooks := nf_hooks s @ [h]\<rparr>"
| "nf_do s (Unregister h) = s\<lparr>nf_hooks := remove1 h (nf_hooks s)\<rparr>"

definition nf_unloaded :: nf_module where
  "nf_unloaded = \<lparr>nf_port = 0, nf_hooks = []\<rparr>"

definition pb_init_module :: "nf_step list" where
  "pb_init_module = [Set_Port (htons 7777), Register NF_INET_LOCAL_IN]"

definition pb_cleanup_module :: "nf_step list" where
  "pb_cleanup_module = [Unregister NF_INET_LOCAL_IN]"

definition m_filter_port :: "u16 \<Rightarrow> sk_buff \<Rightarrow> verdict option" where
  "m_filter_port port skb = do {
     let iph = network_header skb;
     let l4h = transport_header skb;
     protocol \<leftarrow> ld8 (skb_mem skb) (iph + ip_protocol_off);
     if protocol = IPPROTO_UDP then do {
       dest \<leftarrow> ld16 (skb_mem skb) (l4h + l4_dest_off);
       if dest = port then Some NF_DROP else do {
         source \<leftarrow> ld16 (skb_mem skb) (l4h + l4_source_off);
         if source = port then Some NF_DROP else Some NF_ACCEPT } }
     else if protocol = IPPROTO_TCP then do {
       dest \<leftarrow> ld16 (skb_mem skb) (l4h + l4_dest_off);
       if dest = port then Some NF_DROP else do {
         source \<leftarrow> ld16 (skb_mem skb) (l4h + l4_source_off);
         if source = port then Some NF_DROP else Some NF_ACCEPT } }
     else Some NF_ACCEPT
   }"

section \<open>Lemmas\<close>

text \<open>A packet whose IP header and first four transport bytes lie in the linear buffer.\<close>

definition headers_present :: "sk_buff \<Rightarrow> bool" where
  "headers_present skb \<longleftrightarrow> network_header skb + 20 \<le> length (skb_mem skb)
     \<and> transport_header skb + 4 \<le> length (skb_mem skb)"

definition pkt_protocol :: "sk_buff \<Rightarrow> byte" where
  "pkt_protocol skb = skb_mem skb ! (network_header skb + 9)"

text \<open>The ports of a packet, in host order.\<close>

definition pkt_sport :: "sk_buff \<Rightarrow> u16" where
  "pkt_sport skb = ntohs (word16_of (skb_mem skb ! transport_header skb)
                                    (skb_mem skb ! (transport_header skb + 1)))"

definition pkt_dport :: "sk_buff \<Rightarrow> u16" where
  "pkt_dport skb = ntohs (word16_of (skb_mem skb ! (transport_header skb + 2))
                                    (skb_mem skb ! (transport_header skb + 3)))"

lemma swap_eq: "bswap16 v = w \<longleftrightarrow> v = bswap16 w"
  by (metis bswap16_bswap16)

lemma m_filter_port_eq:
  assumes "headers_present skb"
  shows "m_filter_port port skb = Some
    (if (pkt_protocol skb = IPPROTO_UDP \<or> pkt_protocol skb = IPPROTO_TCP)
        \<and> (pkt_dport skb = ntohs port \<or> pkt_sport skb = ntohs port)
     then NF_DROP else NF_ACCEPT)"
  using assms
  by (auto simp: m_filter_port_def headers_present_def pkt_protocol_def pkt_dport_def
      pkt_sport_def ld8_eq ld16_eq Let_def eval_nat_numeral)

lemma nf_init_prefix:
  "nf_hooks (foldl nf_do nf_unloaded (take n pb_init_module)) \<noteq> [] \<Longrightarrow>
   nf_port (foldl nf_do nf_unloaded (take n pb_init_module)) = htons 7777"
  by (auto simp: pb_init_module_def nf_unloaded_def take_Cons split: nat.splits)

section \<open>Properties\<close>

text \<open>
  C10. Loading the port filter: at whatever point of the load a packet reaches the hook, the
  verdict is drop exactly for UDP and TCP packets from or to port 7777, and accept for all
  others, the other protocols included.
\<close>

theorem port_block_verdict:
  assumes "headers_present skb"
    and "NF_INET_LOCAL_IN \<in> set (nf_hooks m)"
    and "m = foldl nf_do nf_unloaded (take n pb_init_module)"
  shows "m_filter_port (nf_port m) skb = Some
    (if (pkt_protocol skb = IPPROTO_UDP \<or> pkt_protocol skb = IPPROTO_TCP)
        \<and> (pkt_dport skb = 7777 \<or> pkt_sport skb = 7777)
     then NF_DROP else NF_ACCEPT)"
proof -
  have "nf_port m = htons 7777" using nf_init_prefix [of n] assms(2,3) by fastforce
  then show ?thesis using m_filter_port_eq [OF assms(1), of "nf_port m"] by simp
qed

definition example_udp :: "byte list \<Rightarrow> sk_buff" where
  "example_udp ports = \<lparr>skb_mem = [0x45, 0, 0, 28, 0, 0, 0, 0, 64, 17, 0, 0,
      127, 0, 0, 1, 127, 0, 0, 1] @ ports @ [0, 8, 0, 0],
     network_header = 0, transport_header = 20, skb_len = 28, skb_tail = 28,
     skb_rtable = None, skb_dev = None\<rparr>"

theorem port_block_verdict_witness:
  "m_filter_port (htons 7777) (example_udp [0x1E, 0x61, 0, 53]) = Some NF_DROP"
proof -
  let ?m = "foldl nf_do nf_unloaded (take 2 pb_init_module)"
  have m: "?m = \<lparr>nf_port = htons 7777, nf_hooks = [NF_INET_LOCAL_IN]\<rparr>"
    by (simp add: pb_init_module_def nf_unloaded_def)
  have "headers_present (example_udp [0x1E, 0x61, 0, 53])"
    by (simp add: headers_present_def example_udp_def)
  from port_block_verdict [OF this _ refl, of 2] show ?thesis
    unfolding m by (simp add: pkt_protocol_def pkt_sport_def example_udp_def word16_of_def bswap16_def)
qed

end
