(* ===== verification/DnsProxy.thy ===== *)
theory DnsProxy
  imports DnsTree Netfilter
begin

text \<open>
  The DNS proxy module, core/netfilter/proxy\_server: \<open>hook_in_packets\<close> learns the answers that
  arrive, \<open>hook_out_packets\<close> answers known questions with a packet that \<open>create_packet\<close> builds
  and drops the question. The kernel routines that the code calls are parameters: the
  rebalancing \<open>rb\<close>, \<open>skb_copy_expand\<close> (assumed in the locale \<open>skb_library\<close> to copy the data and
  to leave the requested room behind it) and \<open>ip_local_out\<close>, which only returns a number here;
  the packet handed to it is part of the result. \<open>kmalloc\<close> may fail: whether the two
  allocations succeed is an argument of the hooks.
\<close>

section \<open>The module's state\<close>

text \<open>
  The tree and the number of \<^verbatim>\<open>dns_node\<close> allocations that were made and never freed: the code
  has no \<^verbatim>\<open>kfree\<close> for a node.
\<close>

record 'c proxy =
  dns_tree :: "'c rb_root"
  node_allocs :: nat

definition dns_init_module :: "nf_step list" where
  "dns_init_module = [Register NF_INET_PRE_ROUTING, Register NF_INET_POST_ROUTING,
                      Set_Port (htons 53)]"

definition dns_cleanup_module :: "nf_step list" where
  "dns_cleanup_module = [Unregister NF_INET_PRE_ROUTING, Unregister NF_INET_POST_ROUTING]"

text \<open>
  \<^verbatim>\<open>sizeof\<close> of the headers, and the fields of the packed \<^verbatim>\<open>struct r_data\<close>: name 0, type 2,
  class 4, ttl 6, data\_len 10, addr 12.
\<close>

abbreviation (input) HOSTNAME_LEN :: nat where "HOSTNAME_LEN \<equiv> 255"
abbreviation (input) sizeof_udphdr :: nat where "sizeof_udphdr \<equiv> 8"
abbreviation (input) sizeof_dnshdr :: nat where "sizeof_dnshdr \<equiv> 12"
abbreviation (input) sizeof_r_data :: nat where "sizeof_r_data \<equiv> 16"

section \<open>Learning answers\<close>

text \<open>
  \<open>load_name\<close> is the common start of both hooks: \<^verbatim>\<open>strncpy(hname, dnsh + 1, HOSTNAME_LEN)\<close> into
  the freshly allocated \<open>hname\<close> (a null pointer when \<open>hname_ok\<close> is false), then its \<^verbatim>\<open>strlen\<close>.
\<close>

definition load_name :: "bool \<Rightarrow> byte list \<Rightarrow> nat \<Rightarrow> (byte list \<times> nat) option" where
  "load_name hname_ok m dnsh = do {
     hname \<leftarrow> (if hname_ok then strncpy (drop (dnsh + sizeof_dnshdr) m) HOSTNAME_LEN else None);
     name_len \<leftarrow> strlen hname;
     Some (hname, name_len)
   }"

definition hook_in_packets ::
  "(dns_node \<Rightarrow> 'c rb_root \<Rightarrow> 'c rb_root) \<Rightarrow> 'c \<Rightarrow> u16 \<Rightarrow> bool \<Rightarrow> bool \<Rightarrow> 'c proxy \<Rightarrow> sk_buff
   \<Rightarrow> (verdict \<times> 'c proxy) option" where
  "hook_in_packets rb c0 dns_port hname_ok node_ok s skb = do {
     let m = skb_mem skb;
     let iph = network_header skb;
     protocol \<leftarrow> ld8 m (iph + ip_protocol_off);
     if protocol \<noteq> IPPROTO_UDP then Some (NF_ACCEPT, s) else do {
     let udph = transport_header skb;
     source \<leftarrow> ld16 m (udph + l4_source_off);
     if source \<noteq> dns_port then Some (NF_ACCEPT, s) else do {
     let dnsh = udph + sizeof_udphdr;
     (hname, name_len) \<leftarrow> load_name hname_ok m dnsh;
     found \<leftarrow> search (dns_tree s) hname;
     case found of
       Some node \<Rightarrow> Some (NF_ACCEPT, s)
     | None \<Rightarrow> do {
         let s = s\<lparr>node_allocs := node_allocs s + (if node_ok then 1 else 0)\<rparr>;
         let offset = sizeof_dnshdr + name_len + 5;
         let r_data = dnsh + offset;
         type \<leftarrow> ld16 m (r_data + 2);
         bad \<leftarrow> (if ntohs type \<noteq> 1
                then do { data_len \<leftarrow> ld16 m (r_data + 10); Some (ntohs data_len \<noteq> 4) }
                else Some False);
         if bad then Some (NF_ACCEPT, s) else do {
         a \<leftarrow> ld32 m (r_data + 12);
         t \<leftarrow> ld32 m (r_data + 6);
         host \<leftarrow> strncpy hname HOSTNAME_LEN;
         _ \<leftarrow> (if node_ok then Some () else None);
         (k, root) \<leftarrow> dns_insert rb c0 (dns_tree s) \<lparr>host_name = host, addr = a, ttl = t\<rparr>;
         Some (NF_ACCEPT, s\<lparr>dns_tree := root\<rparr>) } } } } }"

section \<open>Answering questions\<close>

text \<open>
  \<open>create_packet\<close>: the result is the return value and the packet that was handed to
  \<open>ip_local_out\<close>, if any. In the second flag byte of \<^verbatim>\<open>struct dnshdr\<close> the bit-field \<^verbatim>\<open>rd\<close> is bit 0
  and \<^verbatim>\<open>qr\<close> bit 7; in the third \<^verbatim>\<open>ad\<close> is bit 5 and \<^verbatim>\<open>ra\<close> bit 7.
\<close>

definition create_packet ::
  "(sk_buff \<Rightarrow> nat \<Rightarrow> nat \<Rightarrow> sk_buff option) \<Rightarrow> (sk_buff \<Rightarrow> int) \<Rightarrow> sk_buff \<Rightarrow> dns_node
   \<Rightarrow> (int \<times> sk_buff option) option" where
  "create_packet skb_copy_expand ip_local_out skb_old node =
     (case skb_copy_expand skb_old 0 sizeof_r_data of
        None \<Rightarrow> Some (-1, None)
      | Some skb \<Rightarrow> do {
          let skb = skb\<lparr>skb_len := skb_len skb + of_nat sizeof_r_data,
                        skb_tail := skb_tail skb + sizeof_r_data\<rparr>;
          name_len \<leftarrow> strlen (host_name node);
          let req_offset = sizeof_udphdr + sizeof_dnshdr + name_len + 5;
          let m = skb_mem skb;
          let iph = network_header skb;
          m \<leftarrow> st16 m (iph + ip_tot_len_off) (htons (ucast (skb_len skb)));
          saddr \<leftarrow> ld32 m (iph + ip_saddr_off);
          daddr \<leftarrow> ld32 m (iph + ip_daddr_off);
          m \<leftarrow> st32 m (iph + ip_saddr_off) daddr;
          m \<leftarrow> st32 m (iph + ip_daddr_off) saddr;
          let udph = transport_header skb;
          dest \<leftarrow> ld16 m (udph + l4_dest_off);
          source \<leftarrow> ld16 m (udph + l4_source_off);
          m \<leftarrow> st16 m (udph + l4_dest_off) source;
          m \<leftarrow> st16 m (udph + l4_source_off) dest;
          len \<leftarrow> ld16 m (udph + udp_len_off);
          m \<leftarrow> st16 m (udph + udp_len_off) (htons (ntohs len + of_nat sizeof_r_data));
          let dnsh = udph + sizeof_udphdr;
          f1 \<leftarrow> ld8 m (dnsh + 2);
          m \<leftarrow> st8 m (dnsh + 2) (f1 OR 0x81);
          f2 \<leftarrow> ld8 m (dnsh + 3);
          m \<leftarrow> st8 m (dnsh + 3) ((f2 OR 0x80) AND 0xDF);
          m \<leftarrow> st16 m (dnsh + 4) (htons 1);
          m \<leftarrow> st16 m (dnsh + 6) (htons 1);
          m \<leftarrow> st16 m (dnsh + 8) (htons 0);
          m \<leftarrow> st16 m (dnsh + 10) (htons 0);
          rt \<leftarrow> skb_rtable skb_old;
          dev \<leftarrow> skb_dev skb_old;
          let skb = skb\<lparr>skb_rtable := Some rt\<rparr>;
          let req_data = udph + req_offset;
          m \<leftarrow> st16 m req_data (htons 0xC00C);
          m \<leftarrow> st16 m (req_data + 2) (htons 1);
          m \<leftarrow> st16 m (req_data + 4) (htons 1);
          m \<leftarrow> st32 m (req_data + 6) (ttl node);
          m \<leftarrow> st16 m (req_data + 10) (htons 4);
          m \<leftarrow> st32 m (req_data + 12) (addr node);
          let skb = skb\<lparr>skb_mem := m\<rparr>;
          Some (ip_local_out skb, Some skb)
        })"

definition hook_out_packets ::
  "(sk_buff \<Rightarrow> nat \<Rightarrow> nat \<Rightarrow> sk_buff option) \<Rightarrow> (sk_buff \<Rightarrow> int) \<Rightarrow> u16 \<Rightarrow> bool \<Rightarrow> 'c proxy
   \<Rightarrow> sk_buff \<Rightarrow> (verdict \<times> sk_buff option) option" where
  "hook_out_packets skb_copy_expand ip_local_out dns_port hname_ok s skb = do {
     let m = skb_mem skb;
     let iph = network_header skb;
     protocol \<leftarrow> ld8 m (iph + ip_protocol_off);
     if protocol \<noteq> IPPROTO_UDP then Some (NF_ACCEPT, None) else do {
     let udph = transport_header skb;
     dest \<leftarrow> ld16 m (udph + l4_dest_off);
     if dest \<noteq> dns_port then Some (NF_ACCEPT, None) else do {
     let dnsh = udph + sizeof_udphdr;
     (hname, name_len) \<leftarrow> load_name hname_ok m dnsh;
     found \<leftarrow> search (dns_tree s) hname;
     case found of
       None \<Rightarrow> Some (NF_ACCEPT, None)
     | Some node \<Rightarrow> do {
         (r, sent) \<leftarrow> create_packet skb_copy_expand ip_local_out skb node;
         if r = 0 then Some (NF_DROP, sent) else Some (NF_ACCEPT, sent) } } } }"

section \<open>Learning: lemmas\<close>

text \<open>The name in the question section of a packet, in its wire form.\<close>

definition qname :: "sk_buff \<Rightarrow> byte list" where
  "qname skb = cstr (drop (transport_header skb + 20) (skb_mem skb))"

text \<open>The name ends inside the packet and inside the 255 bytes that the hooks copy.\<close>

definition qname_ok :: "sk_buff \<Rightarrow> bool" where
  "qname_ok skb \<longleftrightarrow>
     terminated (take HOSTNAME_LEN (drop (transport_header skb + 20) (skb_mem skb)))"

definition padded_name :: "byte list \<Rightarrow> byte list" where
  "padded_name n = n @ replicate (HOSTNAME_LEN - length n) 0"

lemma load_name_eq:
  "load_name True (skb_mem skb) (transport_header skb + 8) =
     (if qname_ok skb then Some (padded_name (qname skb), length (qname skb)) else None)"
proof -
  let ?src = "drop (transport_header skb + 20) (skb_mem skb)"
  have off: "transport_header skb + 8 + 12 = transport_header skb + 20" by simp
  show ?thesis
  proof (cases "qname_ok skb")
    case True
    then have "terminated ?src" "length (cstr ?src) < HOSTNAME_LEN"
      by (simp_all add: qname_ok_def terminated_take_iff)
    then show ?thesis using True unfolding load_name_def off
      by (simp add: strncpy_eq strlen_eq qname_def padded_name_def cstr_append)
  next
    case False
    then have "strlen h = None" if "strncpy ?src HOSTNAME_LEN = Some h" for h
      using strncpy_terminated_take [OF that] by (simp add: strlen_eq qname_ok_def)
    then show ?thesis using False unfolding load_name_def off
      by (cases "strncpy ?src HOSTNAME_LEN") auto
  qed
qed

lemma load_name_None:
  "\<not> qname_ok skb \<Longrightarrow> load_name hok (skb_mem skb) (transport_header skb + 8) = None"
  using load_name_eq [of skb] by (cases hok) (auto simp: load_name_def)

lemma padded_name_props [simp]:
  assumes "qname_ok skb"
  shows "terminated (padded_name (qname skb))" "cstr (padded_name (qname skb)) = qname skb"
    "length (qname skb) < HOSTNAME_LEN"
  using assms
  by (auto simp: qname_ok_def terminated_take_iff padded_name_def qname_def cstr_append)

lemma strncpy_padded:
  "qname_ok skb \<Longrightarrow> strncpy (padded_name (qname skb)) HOSTNAME_LEN = Some (padded_name (qname skb))"
  using padded_name_props [of skb] by (simp add: strncpy_eq padded_name_def less_imp_le)

lemma tree_search:
  assumes "tree_ok t" "qname_ok skb"
  shows "search t (padded_name (qname skb)) = Some (cached t (qname skb))"
  using search_cached [OF assms(1), of "padded_name (qname skb)"] assms(2) by simp

text \<open>The answer record that stands behind the question, as the code looks for it.\<close>

definition rr_off :: "sk_buff \<Rightarrow> nat" where
  "rr_off skb = transport_header skb + 25 + length (qname skb)"

text \<open>A DNS packet: both headers, a name, and a whole answer record inside the buffer.\<close>

definition dns_packet :: "sk_buff \<Rightarrow> bool" where
  "dns_packet skb \<longleftrightarrow> network_header skb + 20 \<le> transport_header skb
     \<and> qname_ok skb \<and> rr_off skb \<le> length (skb_mem skb) \<and> pkt_protocol skb = IPPROTO_UDP"

definition rr_type :: "sk_buff \<Rightarrow> u16" where
  "rr_type skb = ntohs (the (ld16 (skb_mem skb) (rr_off skb + 2)))"

definition rr_data_len :: "sk_buff \<Rightarrow> u16" where
  "rr_data_len skb = ntohs (the (ld16 (skb_mem skb) (rr_off skb + 10)))"

definition rr_node :: "sk_buff \<Rightarrow> dns_node" where
  "rr_node skb = \<lparr>host_name = padded_name (qname skb),
     addr = the (ld32 (skb_mem skb) (rr_off skb + 12)),
     ttl = the (ld32 (skb_mem skb) (rr_off skb + 6))\<rparr>"

lemma dns_packet_loads:
  assumes "dns_packet skb"
  shows "ld8 (skb_mem skb) (network_header skb + 9) = Some IPPROTO_UDP"
    "ld16 (skb_mem skb) (transport_header skb + 0) = Some (htons (pkt_sport skb))"
    "ld16 (skb_mem skb) (transport_header skb + 2) = Some (htons (pkt_dport skb))"
  using assms
  by (auto simp: dns_packet_def rr_off_def pkt_protocol_def pkt_sport_def pkt_dport_def
      ld8_eq ld16_eq eval_nat_numeral)

lemma hook_in_foreign:
  assumes "dns_packet skb" "pkt_sport skb \<noteq> ntohs port"
  shows "hook_in_packets rb c0 port hok nok s skb = Some (NF_ACCEPT, s)"
  using dns_packet_loads [OF assms(1)] assms(2)
  by (auto simp: hook_in_packets_def Let_def)

lemma hook_in_known:
  assumes "dns_packet skb" "tree_ok (dns_tree s)" "cached (dns_tree s) (qname skb) \<noteq> None"
  shows "hook_in_packets rb c0 port True nok s skb = Some (NF_ACCEPT, s)"
proof -
  have "qname_ok skb" using assms(1) by (simp add: dns_packet_def)
  with assms(3) show ?thesis
    using dns_packet_loads [OF assms(1)] load_name_eq [of skb] tree_search [OF assms(2)]
    by (auto simp: hook_in_packets_def Let_def)
qed

lemma hook_in_new:
  assumes "rb_library rb" "dns_packet skb" "rr_off skb + 16 \<le> length (skb_mem skb)"
    and "tree_ok (dns_tree s)" "cached (dns_tree s) (qname skb) = None" "pkt_sport skb = ntohs port"
  shows "if rr_type skb = 1 \<or> rr_data_len skb = 4
     then \<exists>t. hook_in_packets rb c0 port True True s skb =
            Some (NF_ACCEPT, s\<lparr>node_allocs := node_allocs s + 1, dns_tree := t\<rparr>)
          \<and> tree_ok t \<and> cached t = (cached (dns_tree s))(qname skb \<mapsto> rr_node skb)
     else hook_in_packets rb c0 port True True s skb =
            Some (NF_ACCEPT, s\<lparr>node_allocs := node_allocs s + 1\<rparr>)"
proof -
  have ok: "qname_ok skb" using assms(2) by (simp add: dns_packet_def)
  have off: "transport_header skb + 8 + (12 + length (qname skb) + 5) = rr_off skb"
    by (simp add: rr_off_def)
  have lds: "ld16 (skb_mem skb) (rr_off skb + 2) = Some (htons (rr_type skb))"
    "ld16 (skb_mem skb) (rr_off skb + 10) = Some (htons (rr_data_len skb))"
    "ld32 (skb_mem skb) (rr_off skb + 12) = Some (addr (rr_node skb))"
    "ld32 (skb_mem skb) (rr_off skb + 6) = Some (ttl (rr_node skb))"
    using assms(3) by (auto simp: rr_type_def rr_data_len_def rr_node_def ld16_eq ld32_eq)
  have node: "\<lparr>host_name = padded_name (qname skb), addr = addr (rr_node skb),
      ttl = ttl (rr_node skb)\<rparr> = rr_node skb" by (simp add: rr_node_def)
  have trm: "terminated (host_name (rr_node skb))" "name_of (rr_node skb) = qname skb"
    using ok by (simp_all add: rr_node_def)
  obtain t where "dns_insert rb c0 (dns_tree s) (rr_node skb) = Some (1, t)" "tree_ok t"
    "cached t = (cached (dns_tree s))(qname skb \<mapsto> rr_node skb)"
    using rb_library.cache_laws(3) [OF assms(1,4) trm(1), of c0] assms(5) trm(2) by auto
  moreover have src: "ld16 (skb_mem skb) (transport_header skb + 0) = Some port"
    using dns_packet_loads(2) [OF assms(2)] assms(6) by simp
  moreover have load: "load_name True (skb_mem skb) (transport_header skb + 8) =
      Some (padded_name (qname skb), length (qname skb))"
    using ok by (simp add: load_name_eq)
  ultimately show ?thesis
    unfolding hook_in_packets_def Let_def
    by (simp only: dns_packet_loads(1) [OF assms(2)] src load tree_search [OF assms(4) ok] assms(5)
        off lds strncpy_padded [OF ok] node bswap16_bswap16
        Option.bind.simps prod.case option.case simp_thms if_False if_True refl)
      auto
qed

text \<open>A response without a zero byte in the first 255 bytes of its name makes \<open>strlen\<close> run on.\<close>

lemma hook_in_unterminated:
  assumes "ld8 (skb_mem skb) (network_header skb + 9) = Some IPPROTO_UDP"
    and "ld16 (skb_mem skb) (transport_header skb + 0) = Some port" "\<not> qname_ok skb"
  shows "hook_in_packets rb c0 port hok nok s skb = None"
  using assms load_name_None [OF assms(3)] by (simp add: hook_in_packets_def Let_def)

section \<open>Answering: lemmas\<close>

text \<open>What \<open>create_packet\<close> leaves in the copy of the question, as one chain of total updates.\<close>

definition answer_mem :: "byte list \<Rightarrow> nat \<Rightarrow> nat \<Rightarrow> u32 \<Rightarrow> nat \<Rightarrow> dns_node \<Rightarrow> byte list" where
  "answer_mem m nh th len r node =
     (let m1 = put16 m (nh + 2) (htons (ucast len));
          m2 = put32 (put32 m1 (nh + 12) (the (ld32 m (nh + 16)))) (nh + 16) (the (ld32 m (nh + 12)));
          m3 = put16 (put16 m2 (th + 2) (the (ld16 m (th + 0)))) (th + 0) (the (ld16 m (th + 2)));
          m4 = put16 m3 (th + 4) (htons (ntohs (the (ld16 m (th + 4))) + 16));
          m5 = m4[th + 8 + 2 := the (ld8 m (th + 8 + 2)) OR 0x81];
          m6 = m5[th + 8 + 3 := (the (ld8 m (th + 8 + 3)) OR 0x80) AND 0xDF];
          m7 = put16 (put16 m6 (th + 8 + 4) (htons 1)) (th + 8 + 6) (htons 1);
          m8 = put16 (put16 m7 (th + 8 + 8) (htons 0)) (th + 8 + 10) (htons 0);
          m9 = put16 (put16 (put16 m8 r (htons 0xC00C)) (r + 2) (htons 1)) (r + 4) (htons 1)
      in put32 (put16 (put32 m9 (r + 6) (ttl node)) (r + 10) (htons 4)) (r + 12) (addr node))"

lemma length_answer_mem [simp]: "length (answer_mem m nh th len r node) = length m"
  by (simp add: answer_mem_def Let_def)

definition reply :: "sk_buff \<Rightarrow> nat option \<Rightarrow> dns_node \<Rightarrow> sk_buff" where
  "reply c rt node = c\<lparr>skb_len := skb_len c + 16, skb_tail := skb_tail c + 16, skb_rtable := rt,
     skb_mem := answer_mem (skb_mem c) (network_header c) (transport_header c) (skb_len c + 16)
       (transport_header c + 25 + length (name_of node)) node\<rparr>"

lemma create_packet_eq:
  assumes "cp skb 0 16 = Some c" "terminated (host_name node)"
    and "network_header c + 20 \<le> transport_header c"
    and "transport_header c + 41 + length (name_of node) \<le> length (skb_mem c)"
    and "skb_rtable skb = Some rt" "skb_dev skb = Some dev"
  shows "create_packet cp out skb node =
    Some (out (reply c (Some rt) node), Some (reply c (Some rt) node))"
proof -
  define m nh th n where "m = skb_mem c" and "nh = network_header c" and "th = transport_header c"
    and "n = length (name_of node)"
  have off: "th + (8 + 12 + n + 5) = th + 25 + n" by simp
  have b: "nh + 20 \<le> th" "th + 41 + n \<le> length m"
    using assms(3,4) by (simp_all add: m_def nh_def th_def n_def)
  obtain sa da sp dp l f1 f2 where lds:
    "ld32 m (nh + 12) = Some sa" "ld32 m (nh + 16) = Some da" "ld16 m (th + 0) = Some sp"
    "ld16 m (th + 2) = Some dp" "ld16 m (th + 4) = Some l" "ld8 m (th + 8 + 2) = Some f1"
    "ld8 m (th + 8 + 3) = Some f2"
    using b by (auto simp: ld8_def ld16_def ld32_def)
  have str: "strlen (host_name node) = Some n" using assms(2) by (simp add: strlen_eq n_def)
  show ?thesis
    using b lds unfolding create_packet_def assms(1) option.case Let_def
    by (simp add: assms(5,6) str off reply_def answer_mem_def put_simps Let_def ac_simps
        flip: m_def nh_def th_def n_def)
qed

text \<open>The fields of the answer, read back from the memory that \<open>create_packet\<close> wrote.\<close>

lemma answer_mem_loads:
  assumes "nh + 20 \<le> th" "th + 20 \<le> r" "r + 16 \<le> length m"
    and m': "m' = answer_mem m nh th len r node"
  shows "ld8 m' (nh + 9) = ld8 m (nh + 9)"
    "ld16 m' (nh + 2) = Some (htons (ucast len))"
    "ld32 m' (nh + 12) = ld32 m (nh + 16)" "ld32 m' (nh + 16) = ld32 m (nh + 12)"
    "ld16 m' (th + 0) = ld16 m (th + 2)" "ld16 m' (th + 2) = ld16 m (th + 0)"
    "ld16 m' (th + 4) = Some (htons (ntohs (the (ld16 m (th + 4))) + 16))"
    "ld16 m' (th + 6) = ld16 m (th + 6)" "ld16 m' (th + 8) = ld16 m (th + 8)"
    "ld8 m' (th + 10) = Some (the (ld8 m (th + 10)) OR 0x81)"
    "ld8 m' (th + 11) = Some ((the (ld8 m (th + 11)) OR 0x80) AND 0xDF)"
    "ld16 m' (th + 12) = Some (htons 1)" "ld16 m' (th + 14) = Some (htons 1)"
    "ld16 m' (th + 16) = Some (htons 0)" "ld16 m' (th + 18) = Some (htons 0)"
  using assms(1-3) unfolding m' answer_mem_def Let_def
  by (simp_all add: put_simps ld_Some_iff ac_simps del: add_2_eq_Suc add_2_eq_Suc')

lemma answer_mem_record:
  assumes "nh + 20 \<le> th" "th + 20 \<le> r" "r + 16 \<le> length m"
    and m': "m' = answer_mem m nh th len r node"
  shows "ld16 m' r = Some (htons 0xC00C)" "ld16 m' (r + 2) = Some (htons 1)"
    "ld16 m' (r + 4) = Some (htons 1)" "ld32 m' (r + 6) = Some (ttl node)"
    "ld16 m' (r + 10) = Some (htons 4)" "ld32 m' (r + 12) = Some (addr node)"
    "th + 20 + k \<le> r \<Longrightarrow> take k (drop (th + 20) m') = take k (drop (th + 20) m)"
    "r + 16 \<le> i \<Longrightarrow> ld8 m' i = ld8 m i"
  using assms(1-3) unfolding m' answer_mem_def Let_def
  by (simp_all add: put_simps ac_simps del: add_2_eq_Suc add_2_eq_Suc')

section \<open>The kernel's packet copy\<close>

text \<open>
  What the module relies on: a copy has the same headers, route, device and lengths, the same
  bytes up to the end of the data, and the requested room behind it.
\<close>

definition copy_of :: "sk_buff \<Rightarrow> nat \<Rightarrow> sk_buff \<Rightarrow> bool" where
  "copy_of s n c \<longleftrightarrow> network_header c = network_header s
     \<and> transport_header c = transport_header s \<and> skb_len c = skb_len s \<and> skb_tail c = skb_tail s
     \<and> skb_dev c = skb_dev s \<and> take (skb_tail s) (skb_mem c) = take (skb_tail s) (skb_mem s)
     \<and> skb_tail s + n \<le> length (skb_mem c)"

text \<open>A question that ends inside the packet, with the four bytes of its type and class.\<close>

definition dns_question :: "sk_buff \<Rightarrow> bool" where
  "dns_question s \<longleftrightarrow> dns_packet s \<and> rr_off s \<le> skb_tail s \<and> skb_tail s \<le> length (skb_mem s)
     \<and> skb_rtable s \<noteq> None \<and> skb_dev s \<noteq> None"

locale skb_library =
  fixes skb_copy_expand :: "sk_buff \<Rightarrow> nat \<Rightarrow> nat \<Rightarrow> sk_buff option"
  assumes copies: "skb_tail s \<le> length (skb_mem s) \<Longrightarrow> skb_copy_expand s h n = Some c \<Longrightarrow> copy_of s n c"
begin

lemma copy_loads:
  assumes "dns_question s" "skb_copy_expand s 0 16 = Some c"
  shows "network_header c = network_header s" "transport_header c = transport_header s"
    "skb_len c = skb_len s" "rr_off s + 16 \<le> length (skb_mem c)"
    "network_header s + 20 \<le> transport_header s" "transport_header s + 20 \<le> rr_off s"
    "i < rr_off s \<Longrightarrow> ld8 (skb_mem c) i = ld8 (skb_mem s) i"
    "i + 1 < rr_off s \<Longrightarrow> ld16 (skb_mem c) i = ld16 (skb_mem s) i"
    "i + 3 < rr_off s \<Longrightarrow> ld32 (skb_mem c) i = ld32 (skb_mem s) i"
    "i + k \<le> rr_off s \<Longrightarrow> take k (drop i (skb_mem c)) = take k (drop i (skb_mem s))"
proof -
  have q: "rr_off s \<le> skb_tail s" "skb_tail s \<le> length (skb_mem s)"
    using assms(1) by (simp_all add: dns_question_def)
  have c: "copy_of s 16 c" using copies [OF q(2) assms(2)] .
  then show "network_header c = network_header s" "transport_header c = transport_header s"
    "skb_len c = skb_len s" "rr_off s + 16 \<le> length (skb_mem c)"
    using q by (auto simp: copy_of_def)
  show "network_header s + 20 \<le> transport_header s" "transport_header s + 20 \<le> rr_off s"
    using assms(1) by (simp_all add: dns_question_def dns_packet_def rr_off_def)
  have nth: "skb_mem c ! j = skb_mem s ! j" if "j < rr_off s" for j
    using c q that unfolding copy_of_def by (metis nth_take order_less_le_trans)
  have len: "rr_off s \<le> length (skb_mem c)" "rr_off s \<le> length (skb_mem s)"
    using c q by (auto simp: copy_of_def)
  show l8: "ld8 (skb_mem c) i = ld8 (skb_mem s) i" if "i < rr_off s" for i
    using nth [OF that] len that by (simp add: ld8_def)
  then show "i + 1 < rr_off s \<Longrightarrow> ld16 (skb_mem c) i = ld16 (skb_mem s) i"
    "i + 3 < rr_off s \<Longrightarrow> ld32 (skb_mem c) i = ld32 (skb_mem s) i"
    by (simp_all add: ld16_def ld32_def)
  show "take k (drop i (skb_mem c)) = take k (drop i (skb_mem s))" if "i + k \<le> rr_off s"
    using nth len that by (intro nth_equalityI) auto
qed

text \<open>The answer that is sent for a question whose name is in the cache.\<close>

lemma create_packet_sends:
  assumes "dns_question s" "skb_copy_expand s 0 16 = Some c"
    and "terminated (host_name node)" "name_of node = qname s"
  shows "create_packet skb_copy_expand out s node =
    Some (out (reply c (skb_rtable s) node), Some (reply c (skb_rtable s) node))"
proof -
  from assms(1) obtain rt dev where "skb_rtable s = Some rt" "skb_dev s = Some dev"
    by (auto simp: dns_question_def)
  with create_packet_eq [of skb_copy_expand s c node, OF assms(2,3)] copy_loads [OF assms(1,2)]
    assms(4) show ?thesis
    by (simp add: rr_off_def)
qed

lemma reply_mem:
  assumes "dns_question s" "skb_copy_expand s 0 16 = Some c" "name_of node = qname s"
  shows "skb_mem (reply c rt node) = answer_mem (skb_mem c) (network_header s)
      (transport_header s) (skb_len s + 16) (rr_off s) node"
    "transport_header (reply c rt node) = transport_header s"
    "network_header (reply c rt node) = network_header s"
  using copy_loads(1-3) [OF assms(1,2)] assms(3) by (simp_all add: reply_def rr_off_def)

lemma reply_name:
  assumes "dns_question s" "skb_copy_expand s 0 16 = Some c" "name_of node = qname s"
  shows "qname (reply c rt node) = qname s" "qname_ok (reply c rt node)"
    "rr_off (reply c rt node) = rr_off s"
proof -
  note cp = copy_loads [OF assms(1,2)]
  define k where "k = length (qname s) + 1"
  let ?src = "drop (transport_header s + 20) (skb_mem s)"
  let ?dst = "drop (transport_header s + 20) (skb_mem (reply c rt node))"
  have ok: "qname_ok s" using assms(1) by (simp add: dns_question_def dns_packet_def)
  have k: "transport_header s + 20 + k \<le> rr_off s" by (simp add: k_def rr_off_def)
  have same: "take k ?dst = take k ?src"
    using answer_mem_record(7) [OF cp(5,6,4) refl k] cp(10) [OF k] reply_mem [OF assms] by simp
  have t: "terminated (take k ?src)"
    using ok by (simp add: qname_ok_def terminated_take_iff k_def qname_def)
  from strncpy_prefix(2,3) [OF t same] show q: "qname (reply c rt node) = qname s"
    by (simp add: qname_def reply_mem(2) [OF assms])
  from strncpy_prefix(2,3) [OF t same] ok show "qname_ok (reply c rt node)"
    by (simp add: qname_ok_def terminated_take_iff reply_mem(2) [OF assms])
  from q show "rr_off (reply c rt node) = rr_off s"
    by (simp add: rr_off_def reply_mem(2) [OF assms])
qed

end

text \<open>The copy that allocates exactly the requested room, zeroed; and the one that finds no memory.\<close>

definition linear_copy :: "sk_buff \<Rightarrow> nat \<Rightarrow> nat \<Rightarrow> sk_buff option" where
  "linear_copy s h n = Some (s\<lparr>skb_mem := take (skb_tail s) (skb_mem s) @ replicate n 0\<rparr>)"

interpretation linear: skb_library linear_copy
  by unfold_locales (auto simp: linear_copy_def copy_of_def)

interpretation no_memory: skb_library "\<lambda>s h n. None"
  by unfold_locales simp

section \<open>The outgoing hook: lemmas\<close>

lemma cached_terminated: "tree_ok t \<Longrightarrow> cached t n = Some d \<Longrightarrow> terminated (host_name d)"
  using cached_name [of t n d] by (auto simp: tree_ok_def)

lemma hook_out_eq:
  assumes "dns_question q" "tree_ok (dns_tree s)"
  shows "hook_out_packets cp out (htons 53) True s q =
    (case cached (dns_tree s) (qname q) of
       Some node \<Rightarrow> if pkt_dport q \<noteq> 53 then Some (NF_ACCEPT, None)
         else do { (r, sent) \<leftarrow> create_packet cp out q node;
                   Some (if r = 0 then NF_DROP else NF_ACCEPT, sent) }
     | None \<Rightarrow> Some (NF_ACCEPT, None))"
proof -
  have pkt: "dns_packet q" using assms(1) by (simp add: dns_question_def)
  then have ok: "qname_ok q" by (simp add: dns_packet_def)
  have load: "load_name True (skb_mem q) (transport_header q + 8) =
      Some (padded_name (qname q), length (qname q))" using ok by (simp add: load_name_eq)
  note loads = dns_packet_loads [OF pkt] load tree_search [OF assms(2) ok]
  show ?thesis
    by (cases "pkt_dport q = 53"; cases "cached (dns_tree s) (qname q)")
      (simp_all only: hook_out_packets_def Let_def loads Option.bind.simps prod.case option.case
        bswap16_inject if_True if_False simp_thms refl if_distrib [of Some]
        if_distrib [of "\<lambda>v. (v, x)" for x])
qed

context skb_library
begin

lemma answer_sent:
  assumes "dns_question q" "tree_ok (dns_tree s)" "pkt_dport q = 53"
    and "cached (dns_tree s) (qname q) = Some node" "skb_copy_expand q 0 16 = Some c"
  shows "hook_out_packets skb_copy_expand out (htons 53) True s q =
    Some (if out (reply c (skb_rtable q) node) = 0 then NF_DROP else NF_ACCEPT,
          Some (reply c (skb_rtable q) node))"
proof -
  have node: "terminated (host_name node)" "name_of node = qname q"
    using cached_terminated [OF assms(2,4)] cached_name [OF assms(4)] by simp_all
  show ?thesis
    using create_packet_sends [OF assms(1,5) node] assms(3,4) by (simp add: hook_out_eq [OF assms(1,2)])
qed

text \<open>The answer is a DNS packet with one whole record, which holds what the cache had.\<close>

lemma reply_packet:
  assumes "dns_question q" "skb_copy_expand q 0 16 = Some c" "name_of node = qname q"
  defines "a \<equiv> reply c (skb_rtable q) node"
  shows "dns_packet a" "rr_off a + 16 \<le> length (skb_mem a)" "rr_type a = 1" "rr_data_len a = 4"
    "rr_node a = \<lparr>host_name = padded_name (qname q), addr = addr node, ttl = ttl node\<rparr>"
    "pkt_sport a = pkt_dport q" "pkt_dport a = pkt_sport q"
proof -
  note cp = copy_loads [OF assms(1,2)]
  note mem = reply_mem [OF assms(1-3), of "skb_rtable q", folded a_def]
  note name = reply_name [OF assms(1-3), of "skb_rtable q", folded a_def]
  note ld = answer_mem_loads [OF cp(5,6,4) mem(1)] and rec = answer_mem_record [OF cp(5,6,4) mem(1)]
  have pkt: "dns_packet q" using assms(1) by (simp add: dns_question_def)
  have len: "length (skb_mem a) = length (skb_mem c)" by (simp add: mem(1))
  show whole: "rr_off a + 16 \<le> length (skb_mem a)" using cp(4) by (simp add: len name(3))
  have "ld8 (skb_mem a) (network_header a + 9) = Some 17"
    using ld(1) cp(5,6) cp(7) [of "network_header q + 9"] dns_packet_loads(1) [OF pkt]
    by (simp add: mem(3))
  then have "pkt_protocol a = 17" by (simp add: pkt_protocol_def ld8_Some_iff)
  then show packet: "dns_packet a"
    using whole cp(5) name(2) by (simp add: dns_packet_def mem(2,3))
  show "rr_type a = 1" "rr_data_len a = 4"
    "rr_node a = \<lparr>host_name = padded_name (qname q), addr = addr node, ttl = ttl node\<rparr>"
    using rec(2,4,5,6) by (simp_all add: rr_type_def rr_data_len_def rr_node_def name)
  have ports: "ld16 (skb_mem a) (transport_header q + 0) = Some (htons (pkt_dport q))"
    "ld16 (skb_mem a) (transport_header q + 2) = Some (htons (pkt_sport q))"
    using ld(5,6) cp(6) cp(8) [of "transport_header q + 2"] cp(8) [of "transport_header q + 0"]
      dns_packet_loads(2,3) [OF pkt] by simp_all
  show "pkt_sport a = pkt_dport q" "pkt_dport a = pkt_sport q"
    using dns_packet_loads(2,3) [OF packet, unfolded mem(2)] ports by simp_all
qed

end

section \<open>Properties\<close>

text \<open>
  C2. What the incoming hook does with a DNS packet, when memory is available: packets from
  another port and known names change nothing; a new name costs one node, and the record is
  learned under the name of the question, with its address and lifetime, when its type is 1
  or its length is 4; otherwise the node that was allocated for it is kept by nobody. The
  packet is accepted in every case and the cache stays well-formed.
\<close>

theorem hook_in_learns:
  assumes "rb_library rb" "tree_ok (dns_tree s)" "dns_packet skb"
    and "rr_off skb + 16 \<le> length (skb_mem skb)"
  shows "\<exists>s'. hook_in_packets rb c0 (htons 53) True True s skb = Some (NF_ACCEPT, s')
    \<and> tree_ok (dns_tree s')
    \<and> (if pkt_sport skb \<noteq> 53 \<or> cached (dns_tree s) (qname skb) \<noteq> None then s' = s
       else node_allocs s' = node_allocs s + 1
         \<and> cached (dns_tree s') = (if rr_type skb = 1 \<or> rr_data_len skb = 4
              then (cached (dns_tree s))(qname skb \<mapsto> rr_node skb) else cached (dns_tree s)))"
proof (cases "pkt_sport skb \<noteq> 53 \<or> cached (dns_tree s) (qname skb) \<noteq> None")
  case True
  then have "hook_in_packets rb c0 (htons 53) True True s skb = Some (NF_ACCEPT, s)"
    using hook_in_foreign [OF assms(3), of "htons 53"] hook_in_known [OF assms(3,2)] by auto
  with True assms(2) show ?thesis by auto
next
  case False
  then have new: "cached (dns_tree s) (qname skb) = None" "pkt_sport skb = ntohs (htons 53)" by auto
  show ?thesis
  proof (cases "rr_type skb = 1 \<or> rr_data_len skb = 4")
    case True
    with hook_in_new [OF assms(1,3,4,2) new, of c0] False show ?thesis
      by (simp only: if_True) (elim exE conjE, auto)
  next
    case F: False
    with hook_in_new [OF assms(1,3,4,2) new, of c0] False assms(2) show ?thesis by simp
  qed
qed

definition example_dns :: "byte list \<Rightarrow> byte list \<Rightarrow> byte list \<Rightarrow> sk_buff" where
  "example_dns ports flags record =
     (let m = [0x45, 0, 0, 48, 0, 0, 0, 0, 64, 17, 0, 0, 10, 0, 0, 1, 8, 8, 8, 8] @ ports
          @ [0, 28, 0, 0, 0xAB, 0xCD] @ flags @ [0, 1, 0, 0, 0, 0, 0, 0]
          @ [1, 97, 0] @ [0, 1, 0, 1] @ record
      in \<lparr>skb_mem = m, network_header = 0, transport_header = 20, skb_len = of_nat (length m),
          skb_tail = length m, skb_rtable = Some 1, skb_dev = Some 2\<rparr>)"

abbreviation example_response :: "byte \<Rightarrow> byte \<Rightarrow> sk_buff" where
  "example_response ty len \<equiv> example_dns [0, 53, 0x30, 0x39] [0x81, 0x80]
     [0xC0, 12, 0, ty, 0, 1, 0, 0, 0, 60, 0, len, 1, 2, 3, 4]"

lemma qname_example [simp]: "qname (example_dns [a, b, c, d] [e, f] r) = [1, 97]"
  by (simp add: qname_def example_dns_def Let_def)

lemma example_length [simp]:
  "length (skb_mem (example_dns [a, b, c, d] [e, f] r)) = 47 + length r"
  by (simp add: example_dns_def Let_def)

lemma example_packet:
  "rr_off (example_dns [a, b, c, d] [e, f] r) = 47"
  "dns_packet (example_dns [a, b, c, d] [e, f] r)"
  "dns_question (example_dns [a, b, c, d] [e, f] r)"
proof -
  let ?s = "example_dns [a, b, c, d] [e, f] r"
  show off: "rr_off ?s = 47" by (simp add: rr_off_def) (simp add: example_dns_def Let_def)
  show pkt: "dns_packet ?s"
    by (simp add: dns_packet_def off) (simp add: pkt_protocol_def qname_ok_def example_dns_def Let_def)
  show "dns_question ?s"
    by (simp add: dns_question_def off pkt) (simp add: example_dns_def Let_def)
qed

lemma example_sport:
  "pkt_sport (example_dns [a, b, c, d] [e, f] r) = ntohs (word16_of a b)"
  "pkt_dport (example_dns [a, b, c, d] [e, f] r) = ntohs (word16_of c d)"
  by (simp_all add: pkt_sport_def pkt_dport_def example_dns_def Let_def)

text \<open>An address record is learned, and so is a canonical-name record of four bytes.\<close>

theorem hook_in_learns_witness:
  "\<exists>s'. hook_in_packets rotate_right True (htons 53) True True \<lparr>dns_tree = Leaf, node_allocs = 0\<rparr>
          (example_response 5 4) = Some (NF_ACCEPT, s')
      \<and> map_option ttl (cached (dns_tree s') [1, 97]) = Some 0x3C000000"
proof -
  let ?skb = "example_response 5 4"
  have "tree_ok (dns_tree \<lparr>dns_tree = Leaf :: bool rb_root, node_allocs = 0\<rparr>)"
    by (simp add: tree_ok_def)
  moreover have "rr_off ?skb + 16 \<le> length (skb_mem ?skb)"
    by (simp add: example_packet)
  moreover have "pkt_sport ?skb = 53" by (simp add: example_sport word16_of_def bswap16_def)
  moreover have "rr_data_len ?skb = 4" "ttl (rr_node ?skb) = 0x3C000000"
    by (simp_all add: rr_data_len_def rr_node_def example_packet ld16_eq ld32_eq)
      (simp_all add: example_dns_def Let_def word16_of_def word32_of_def bswap16_def)
  moreover note hook_in_learns [OF rotating.rb_library_axioms _ example_packet(2), of
      "\<lparr>dns_tree = Leaf, node_allocs = 0\<rparr>" 0 53 48 57 129 128 _ True]
  ultimately show ?thesis by (fastforce simp: cached_def)
qed


text \<open>
  C4. The outgoing hook drops a question exactly when it goes to port 53, its name is in the
  cache, the copy succeeded and the kernel took the answer; in every other case the question
  is let through, and nothing is sent unless the name was known.
\<close>

theorem hook_out_verdict:
  assumes "skb_library cp" "tree_ok (dns_tree s)" "dns_question q"
  shows "\<exists>v sent. hook_out_packets cp out (htons 53) True s q = Some (v, sent)
    \<and> (v = NF_DROP \<longleftrightarrow> (\<exists>a. sent = Some a \<and> out a = 0))
    \<and> (sent \<noteq> None \<longleftrightarrow> pkt_dport q = 53 \<and> cached (dns_tree s) (qname q) \<noteq> None \<and> cp q 0 16 \<noteq> None)"
proof (cases "pkt_dport q = 53 \<and> cached (dns_tree s) (qname q) \<noteq> None")
  case False
  then show ?thesis using hook_out_eq [OF assms(3,2), of cp out] by (auto split: option.splits)
next
  case True
  then obtain node where n: "pkt_dport q = 53" "cached (dns_tree s) (qname q) = Some node" by auto
  show ?thesis
  proof (cases "cp q 0 16")
    case None
    then show ?thesis using n hook_out_eq [OF assms(3,2), of cp out] by (simp add: create_packet_def)
  next
    case (Some c)
    then show ?thesis using n skb_library.answer_sent [OF assms(1,3,2) n Some, of out] by auto
  qed
qed

abbreviation example_question :: sk_buff where
  "example_question \<equiv> example_dns [0x30, 0x39, 0, 53] [0x01, 0x00] []"

abbreviation example_proxy :: "bool proxy" where
  "example_proxy \<equiv> \<lparr>dns_tree = Node Leaf (False, \<lparr>host_name = [1, 97, 0], addr = 7, ttl = 60\<rparr>) Leaf,
                     node_allocs = 1\<rparr>"

lemma example_proxy_ok:
  "tree_ok (dns_tree example_proxy)"
  "cached (dns_tree example_proxy) [1, 97] = Some \<lparr>host_name = [1, 97, 0], addr = 7, ttl = 60\<rparr>"
  "pkt_dport example_question = 53" "linear_copy example_question 0 16 \<noteq> None"
  by (simp_all add: tree_ok_def cached_def example_sport word16_of_def bswap16_def linear_copy_def)

theorem hook_out_verdict_witness:
  "\<exists>a. hook_out_packets linear_copy (\<lambda>_. 0) (htons 53) True example_proxy example_question
     = Some (NF_DROP, Some a)"
  using hook_out_verdict [OF linear.skb_library_axioms example_proxy_ok(1) example_packet(3), of
      "\<lambda>_. 0" 48 57 0 53 1 0 "[]"] example_proxy_ok
  by auto

text \<open>
  C3. Round trip: the answer that the proxy sends for a cached name, put before the incoming
  hook of a proxy that does not know the name, is learned there under the same name with the
  same address and lifetime.
\<close>

theorem answer_is_learned:
  assumes "skb_library cp" "rb_library rb"
    and "tree_ok (dns_tree s)" "dns_question q" "pkt_dport q = 53"
    and "cached (dns_tree s) (qname q) = Some node" "cp q 0 16 \<noteq> None"
    and "tree_ok (dns_tree s')" "cached (dns_tree s') (qname q) = None"
  shows "\<exists>v a s''. hook_out_packets cp out (htons 53) True s q = Some (v, Some a)
    \<and> hook_in_packets rb c0 (htons 53) True True s' a = Some (NF_ACCEPT, s'')
    \<and> tree_ok (dns_tree s'')
    \<and> cached (dns_tree s'') = (cached (dns_tree s'))(qname q \<mapsto>
         \<lparr>host_name = padded_name (qname q), addr = addr node, ttl = ttl node\<rparr>)"
proof -
  obtain c where c: "cp q 0 16 = Some c" using assms(7) by auto
  define a where "a = reply c (skb_rtable q) node"
  note name = cached_name [OF assms(6), THEN conjunct2]
  note pkt = skb_library.reply_packet [OF assms(1,4) c name, folded a_def]
  have q: "qname a = qname q"
    unfolding a_def by (rule skb_library.reply_name(1) [OF assms(1,4) c name])
  obtain s'' where "hook_in_packets rb c0 (htons 53) True True s' a = Some (NF_ACCEPT, s'')"
    "tree_ok (dns_tree s'')" "cached (dns_tree s'') = (cached (dns_tree s'))(qname q \<mapsto> rr_node a)"
    using hook_in_learns [OF assms(2,8) pkt(1,2), of c0] pkt(3,6) assms(5,9) q by auto
  then show ?thesis
    using skb_library.answer_sent [OF assms(1,4,3,5,6) c, of out] pkt(5) by (auto simp: a_def)
qed

theorem answer_is_learned_witness:
  "\<exists>v a s''. hook_out_packets linear_copy (\<lambda>_. 0) (htons 53) True example_proxy example_question
      = Some (v, Some a)
    \<and> hook_in_packets rotate_right True (htons 53) True True \<lparr>dns_tree = Leaf, node_allocs = 0\<rparr> a
      = Some (NF_ACCEPT, s'')
    \<and> map_option addr (cached (dns_tree s'') [1, 97]) = Some 7"
proof -
  have e: "tree_ok (dns_tree \<lparr>dns_tree = Leaf :: bool rb_root, node_allocs = 0\<rparr>)"
    "cached (dns_tree \<lparr>dns_tree = Leaf :: bool rb_root, node_allocs = 0\<rparr>) (qname example_question) = None"
    by (simp_all add: tree_ok_def cached_def)
  show ?thesis
    using answer_is_learned [OF linear.skb_library_axioms rotating.rb_library_axioms
        example_proxy_ok(1) example_packet(3) example_proxy_ok(3) _ example_proxy_ok(4) e, of _ "\<lambda>_. 0"
        True] example_proxy_ok(2)
    by fastforce
qed

text \<open>
  The packet that \<open>create_packet\<close> builds for a question: 16 bytes longer in the IP and the
  UDP length, addresses and ports swapped, the identifier and the question kept, the flags of
  a response, one question and one answer announced, and after the question the answer record.
  The UDP checksum is left as it was in the question, although the bytes that it covers change.
\<close>

lemma create_packet_contents:
  assumes "skb_library cp" "dns_question q" "cp q 0 16 = Some c"
    and "terminated (host_name node)" "name_of node = qname q"
  shows "\<exists>a. create_packet cp out q node = Some (out a, Some a)
    \<and> skb_len a = skb_len q + 16 \<and> skb_rtable a = skb_rtable q
    \<and> (let nh = network_header q; th = transport_header q; m = skb_mem q; m' = skb_mem a;
           r = th + 25 + length (qname q)
       in ld16 m' (nh + 2) = Some (htons (ucast (skb_len q + 16)))
        \<and> ld32 m' (nh + 12) = ld32 m (nh + 16) \<and> ld32 m' (nh + 16) = ld32 m (nh + 12)
        \<and> ld16 m' th = ld16 m (th + 2) \<and> ld16 m' (th + 2) = ld16 m th
        \<and> ld16 m' (th + 4) = Some (htons (ntohs (the (ld16 m (th + 4))) + 16))
        \<and> ld16 m' (th + 6) = ld16 m (th + 6)
        \<and> ld16 m' (th + 8) = ld16 m (th + 8)
        \<and> ld8 m' (th + 10) = Some (the (ld8 m (th + 10)) OR 0x81)
        \<and> ld8 m' (th + 11) = Some ((the (ld8 m (th + 11)) OR 0x80) AND 0xDF)
        \<and> ld16 m' (th + 12) = Some (htons 1) \<and> ld16 m' (th + 14) = Some (htons 1)
        \<and> ld16 m' (th + 16) = Some (htons 0) \<and> ld16 m' (th + 18) = Some (htons 0)
        \<and> take (length (qname q) + 5) (drop (th + 20) m') = take (length (qname q) + 5) (drop (th + 20) m)
        \<and> qname a = qname q
        \<and> ld16 m' r = Some (htons 0xC00C) \<and> ld16 m' (r + 2) = Some (htons 1)
        \<and> ld16 m' (r + 4) = Some (htons 1) \<and> ld32 m' (r + 6) = Some (ttl node)
        \<and> ld16 m' (r + 10) = Some (htons 4) \<and> ld32 m' (r + 12) = Some (addr node))"
proof -
  note cp = skb_library.copy_loads [OF assms(1-3)]
  note mem = skb_library.reply_mem(1) [OF assms(1-3,5), of "skb_rtable q"]
  note ld = answer_mem_loads [OF cp(5,6,4) mem] and rec = answer_mem_record [OF cp(5,6,4) mem]
  have r: "transport_header q + 25 + length (qname q) = rr_off q" by (simp add: rr_off_def)
  have old: "ld32 (skb_mem c) (network_header q + 16) = ld32 (skb_mem q) (network_header q + 16)"
    "ld32 (skb_mem c) (network_header q + 12) = ld32 (skb_mem q) (network_header q + 12)"
    "k < 9 \<Longrightarrow> ld16 (skb_mem c) (transport_header q + k) = ld16 (skb_mem q) (transport_header q + k)"
    "j < 12 \<Longrightarrow> ld8 (skb_mem c) (transport_header q + j) = ld8 (skb_mem q) (transport_header q + j)"
    for k j using cp(5,6) by (auto intro: cp(7-9))
  have k: "transport_header q + 20 + (length (qname q) + 5) \<le> rr_off q" by (simp add: rr_off_def)
  have body: "take (length (qname q) + 5) (drop (transport_header q + 20)
        (answer_mem (skb_mem c) (network_header q) (transport_header q) (skb_len q + 16) (rr_off q) node)) =
      take (length (qname q) + 5) (drop (transport_header q + 20) (skb_mem q))"
    using answer_mem_record(7) [OF cp(5,6,4) refl k] cp(10) [OF k] by simp
  have len: "skb_len (reply c rt node) = skb_len q + 16" "skb_rtable (reply c rt node) = rt" for rt
    using cp(3) by (simp_all add: reply_def)
  show ?thesis
    unfolding Let_def r
    using skb_library.create_packet_sends [OF assms, of out]
      skb_library.reply_name(1) [OF assms(1-3,5), of "skb_rtable q"] ld rec(1-6) old(1,2) body [folded mem]
      old(3) [of 0] old(3) [of 2] old(3) [of 4] old(3) [of 6] old(3) [of 8] old(4) [of 10] old(4) [of 11]
    by (intro exI [of _ "reply c (skb_rtable q) node"]) (simp add: len del: add_2_eq_Suc')
qed

text \<open>
  C11. A response whose first 255 name bytes hold no zero is not handled safely: the copy is
  not terminated and \<open>strlen\<close> leaves it, on the way in and on the way out.
\<close>

theorem unterminated_name_overruns:
  assumes "ld8 (skb_mem skb) (network_header skb + 9) = Some IPPROTO_UDP"
    and "\<not> qname_ok skb"
  shows "(ld16 (skb_mem skb) (transport_header skb + 0) = Some port \<longrightarrow>
           hook_in_packets rb c0 port hok nok s skb = None)
       \<and> (ld16 (skb_mem skb) (transport_header skb + 2) = Some port \<longrightarrow>
           hook_out_packets cp out port hok s skb = None)"
  using assms load_name_None [OF assms(2)]
  by (simp_all add: hook_in_packets_def hook_out_packets_def Let_def)

text \<open>
  While the proxy module is being loaded there is a time when both hooks are active and
  the port that they compare with is still 0, so that packets from or to port 0 would be taken
  for DNS and questions to port 53 are not answered; \<open>port_block\<close> sets its port first.
\<close>

lemma dns_hooks_before_port:
  "(\<exists>n. set (nf_hooks (foldl nf_do nf_unloaded (take n dns_init_module)))
          = {NF_INET_PRE_ROUTING, NF_INET_POST_ROUTING}
      \<and> nf_port (foldl nf_do nf_unloaded (take n dns_init_module)) = 0)
    \<and> nf_port (foldl nf_do nf_unloaded dns_init_module) = htons 53
    \<and> nf_hooks (foldl nf_do nf_unloaded (dns_init_module @ dns_cleanup_module)) = []"
  by (intro conjI exI [of _ 2]) (simp_all add: dns_init_module_def dns_cleanup_module_def
      nf_unloaded_def)

text \<open>A response whose name runs through the end of the packet.\<close>

definition example_unterminated :: sk_buff where
  "example_unterminated = \<lparr>skb_mem = replicate 9 1 @ [17] @ replicate 10 1 @ [0, 53] @ replicate 18 1,
     network_header = 0, transport_header = 20, skb_len = 40, skb_tail = 40,
     skb_rtable = None, skb_dev = None\<rparr>"

theorem unterminated_name_overruns_witness:
  "hook_in_packets rotate_right True (htons 53) True True \<lparr>dns_tree = Leaf, node_allocs = 0\<rparr>
     example_unterminated = None"
  using unterminated_name_overruns [of example_unterminated "htons 53" rotate_right True True True
      "\<lparr>dns_tree = Leaf, node_allocs = 0\<rparr>"]
  by (simp add: qname_ok_def example_unterminated_def ld8_eq ld16_eq nth_append word16_of_def
      bswap16_def)

end
