(* ===== verification/DnsFormat.thy ===== *)
theory DnsFormat
  imports DnsProxy
begin

text \<open>
  The message formats of proxy\_server.h as records: \<^verbatim>\<open>struct dnshdr\<close> with its bit fields, in the
  layout of the compiler for a little-endian machine, \<^verbatim>\<open>struct question\<close> and the packed
  \<^verbatim>\<open>struct r_data\<close>. Each has its bytes, and a reader for a place in memory. The hooks work on
  the bytes; here their work is stated on the structures.
\<close>

section \<open>struct dnshdr\<close>

record dnshdr =
  dns_id :: u16
  dns_rd :: bool
  dns_tc :: bool
  dns_aa :: bool
  dns_opcode :: "4 word"
  dns_qr :: bool
  dns_rcode :: "4 word"
  dns_cd :: bool
  dns_ad :: bool
  dns_z :: bool
  dns_ra :: bool
  q_count :: u16
  ans_count :: u16
  auth_count :: u16
  add_count :: u16

definition bit_at :: "nat \<Rightarrow> bool \<Rightarrow> byte" where
  "bit_at n b = push_bit n (of_bool b)"

definition dns_flags1 :: "dnshdr \<Rightarrow> byte" where
  "dns_flags1 h = bit_at 0 (dns_rd h) OR bit_at 1 (dns_tc h) OR bit_at 2 (dns_aa h)
     OR push_bit 3 (ucast (dns_opcode h)) OR bit_at 7 (dns_qr h)"

definition dns_flags2 :: "dnshdr \<Rightarrow> byte" where
  "dns_flags2 h = ucast (dns_rcode h) OR bit_at 4 (dns_cd h) OR bit_at 5 (dns_ad h)
     OR bit_at 6 (dns_z h) OR bit_at 7 (dns_ra h)"

definition enc_dnshdr :: "dnshdr \<Rightarrow> byte list" where
  "enc_dnshdr h = bytes16 (dns_id h) @ [dns_flags1 h, dns_flags2 h] @ bytes16 (q_count h)
     @ bytes16 (ans_count h) @ bytes16 (auth_count h) @ bytes16 (add_count h)"

definition dnshdr_at :: "byte list \<Rightarrow> nat \<Rightarrow> dnshdr option" where
  "dnshdr_at m p = do {
     i \<leftarrow> ld16 m p;
     f \<leftarrow> ld8 m (p + 2);
     g \<leftarrow> ld8 m (p + 3);
     q \<leftarrow> ld16 m (p + 4);
     an \<leftarrow> ld16 m (p + 6);
     au \<leftarrow> ld16 m (p + 8);
     ad \<leftarrow> ld16 m (p + 10);
     Some \<lparr>dns_id = i, dns_rd = bit f 0, dns_tc = bit f 1, dns_aa = bit f 2, dns_opcode = ucast (drop_bit 3 f),
       dns_qr = bit f 7, dns_rcode = ucast g, dns_cd = bit g 4, dns_ad = bit g 5, dns_z = bit g 6,
       dns_ra = bit g 7, q_count = q, ans_count = an, auth_count = au, add_count = ad\<rparr> }"

section \<open>struct question, struct r\_data\<close>

record question =
  qtype :: u16
  qclass :: u16

definition question_at :: "byte list \<Rightarrow> nat \<Rightarrow> question option" where
  "question_at m p = do { t \<leftarrow> ld16 m p; c \<leftarrow> ld16 m (p + 2); Some \<lparr>qtype = t, qclass = c\<rparr> }"

record r_data =
  rr_name :: u16
  rr_type :: u16
  rr_class :: u16
  rr_ttl :: u32
  rr_len :: u16
  rr_addr :: u32

definition enc_r_data :: "r_data \<Rightarrow> byte list" where
  "enc_r_data r = bytes16 (rr_name r) @ bytes16 (rr_type r) @ bytes16 (rr_class r) @ bytes32 (rr_ttl r)
     @ bytes16 (rr_len r) @ bytes32 (rr_addr r)"

definition r_data_at :: "byte list \<Rightarrow> nat \<Rightarrow> r_data option" where
  "r_data_at m p = do {
     n \<leftarrow> ld16 m p;
     t \<leftarrow> ld16 m (p + 2);
     c \<leftarrow> ld16 m (p + 4);
     l \<leftarrow> ld32 m (p + 6);
     d \<leftarrow> ld16 m (p + 10);
     a \<leftarrow> ld32 m (p + 12);
     Some \<lparr>rr_name = n, rr_type = t, rr_class = c, rr_ttl = l, rr_len = d, rr_addr = a\<rparr> }"

section \<open>Layout\<close>

lemma sizeof: "length (enc_dnshdr h) = sizeof_dnshdr" "length (enc_r_data r) = sizeof_r_data"
  by (simp_all add: enc_dnshdr_def enc_r_data_def bytes16_def bytes32_def)

lemma bit_bit_at [simp]: "bit (bit_at n b) k \<longleftrightarrow> b \<and> k = n \<and> k < 8"
  by (auto simp: bit_at_def bit_simps)

lemma flags_bits:
  "bit (dns_flags1 h) 0 = dns_rd h" "bit (dns_flags1 h) 1 = dns_tc h" "bit (dns_flags1 h) 2 = dns_aa h"
  "bit (dns_flags1 h) 7 = dns_qr h" "ucast (drop_bit 3 (dns_flags1 h)) = dns_opcode h"
  "ucast (dns_flags2 h) = dns_rcode h" "bit (dns_flags2 h) 4 = dns_cd h" "bit (dns_flags2 h) 5 = dns_ad h"
  "bit (dns_flags2 h) 6 = dns_z h" "bit (dns_flags2 h) 7 = dns_ra h"
  by (auto simp: dns_flags1_def dns_flags2_def bit_simps intro!: bit_word_eqI
      dest: bit_imp_le_length)

lemma dnshdr_roundtrip: "dnshdr_at (pre @ enc_dnshdr h @ rest) (length pre) = Some h"
  using flags_bits [of h]
  by (simp add: dnshdr_at_def enc_dnshdr_def bytes16_def ld16_eq ld8_eq nth_append)

lemma r_data_roundtrip: "r_data_at (pre @ enc_r_data r @ rest) (length pre) = Some r"
  by (simp add: r_data_at_def enc_r_data_def bytes16_def bytes32_def ld16_eq ld32_eq nth_append)


section \<open>What create\_packet does to the header\<close>

text \<open>The assignments \<^verbatim>\<open>qr = rd = ra = 1\<close> and \<^verbatim>\<open>ad = 0\<close>, as they act on the two bytes.\<close>

lemma flag_masks:
  "(0x81 :: byte) = bit_at 0 True OR bit_at 7 True" "(0x80 :: byte) = bit_at 7 True"
  "(0xDF :: byte) = NOT (bit_at 5 True)"
  by (simp_all add: bit_at_def)

lemma set_flags:
  fixes f :: byte
  shows "bit (f OR 0x81) 0" "bit (f OR 0x81) (Suc 0) = bit f (Suc 0)" "bit (f OR 0x81) 2 = bit f 2" "bit (f OR 0x81) 7"
    "ucast (drop_bit 3 (f OR 0x81)) = (ucast (drop_bit 3 f) :: 4 word)"
    "ucast ((f OR 0x80) AND 0xDF) = (ucast f :: 4 word)"
    "bit ((f OR 0x80) AND 0xDF) 4 = bit f 4" "\<not> bit ((f OR 0x80) AND 0xDF) 5"
    "bit ((f OR 0x80) AND 0xDF) 6 = bit f 6" "bit ((f OR 0x80) AND 0xDF) 7"
  unfolding flag_masks by (auto simp: bit_simps intro!: bit_word_eqI)

text \<open>The header of a response: the fields that the code sets, the others as in the question.\<close>

definition response_header :: "dnshdr \<Rightarrow> dnshdr" where
  "response_header h = h\<lparr>dns_qr := True, dns_rd := True, dns_ra := True, dns_ad := False,
     q_count := htons 1, ans_count := htons 1, auth_count := htons 0, add_count := htons 0\<rparr>"

lemma dnshdr_at_Some: "p + 12 \<le> length m \<Longrightarrow> \<exists>h. dnshdr_at m p = Some h"
  by (simp add: dnshdr_at_def ld16_eq ld8_eq)

lemma dnshdr_at_response:
  assumes "dnshdr_at m p = Some h" "ld16 m' p = ld16 m p"
    and "ld8 m' (p + 2) = Some (the (ld8 m (p + 2)) OR 0x81)"
    and "ld8 m' (p + 3) = Some ((the (ld8 m (p + 3)) OR 0x80) AND 0xDF)"
    and "ld16 m' (p + 4) = Some (htons 1)" "ld16 m' (p + 6) = Some (htons 1)"
    and "ld16 m' (p + 8) = Some (htons 0)" "ld16 m' (p + 10) = Some (htons 0)"
  shows "dnshdr_at m' p = Some (response_header h)"
  using assms by (auto simp: dnshdr_at_def response_header_def set_flags set_flags(5) [simplified] split: bind_splits)

lemma question_at_same:
  assumes "take n (drop s m') = take n (drop s m)" "k + 4 \<le> n" "s + n \<le> length m"
  shows "question_at m' (s + k) = question_at m (s + k)"
proof -
  have "length (take n (drop s m')) = n" using assms(1,3) by simp
  then have len: "s + n \<le> length m'" using assms(2) by (simp add: min_def split: if_splits)
  have "m' ! (s + i) = m ! (s + i)" if "i < n" for i
    using arg_cong [OF assms(1), of "\<lambda>xs. xs ! i"] that len assms(3) by simp
  from this [of k] this [of "k + 1"] this [of "k + 2"] this [of "k + 3"] show ?thesis
    using assms(2,3) len by (simp add: question_at_def ld16_eq numeral_eq_Suc ac_simps)
qed

section \<open>Properties\<close>

text \<open>
  C7. The packet that \<open>create_packet\<close> builds is a well-formed answer to the question: its header is that
  of the question with the fields of a response set and one question and one answer announced,
  the question itself is unchanged, and behind it stands one address record, whose name points
  to the question's and which carries the address and the lifetime of the cached entry. It is
  16 bytes longer in the IP and the UDP length, with addresses and ports swapped; but the UDP
  checksum is left as it was, although the bytes that it covers change.
\<close>

theorem answer_is_wellformed:
  assumes "skb_library cp" "dns_question q" "cp q 0 16 = Some c"
    and "terminated (host_name node)" "name_of node = qname q"
  shows "\<exists>a h. create_packet cp out q node = Some (out a, Some a)
    \<and> skb_len a = skb_len q + 16 \<and> qname a = qname q
    \<and> (let nh = network_header q; th = transport_header q; m = skb_mem q; m' = skb_mem a;
           r = th + 25 + length (qname q)
       in dnshdr_at m (th + 8) = Some h \<and> dnshdr_at m' (th + 8) = Some (response_header h)
        \<and> question_at m' (r - 4) = question_at m (r - 4)
        \<and> r_data_at m' r = Some \<lparr>rr_name = htons 0xC00C, rr_type = htons 1, rr_class = htons 1,
             rr_ttl = ttl node, rr_len = htons 4, rr_addr = addr node\<rparr>
        \<and> ld16 m' (nh + 2) = Some (htons (ucast (skb_len q + 16)))
        \<and> ld32 m' (nh + 12) = ld32 m (nh + 16) \<and> ld32 m' (nh + 16) = ld32 m (nh + 12)
        \<and> ld16 m' th = ld16 m (th + 2) \<and> ld16 m' (th + 2) = ld16 m th
        \<and> ld16 m' (th + 4) = Some (htons (ntohs (the (ld16 m (th + 4))) + 16))
        \<and> ld16 m' (th + 6) = ld16 m (th + 6))"
proof -
  obtain a where a: "create_packet cp out q node = Some (out a, Some a)"
    "skb_len a = skb_len q + 16" "qname a = qname q"
    and c: "let nh = network_header q; th = transport_header q; m = skb_mem q; m' = skb_mem a;
        r = th + 25 + length (qname q)
      in ld16 m' (nh + 2) = Some (htons (ucast (skb_len q + 16)))
        \<and> ld32 m' (nh + 12) = ld32 m (nh + 16) \<and> ld32 m' (nh + 16) = ld32 m (nh + 12)
        \<and> ld16 m' th = ld16 m (th + 2) \<and> ld16 m' (th + 2) = ld16 m th
        \<and> ld16 m' (th + 4) = Some (htons (ntohs (the (ld16 m (th + 4))) + 16))
        \<and> ld16 m' (th + 6) = ld16 m (th + 6)
        \<and> ld16 m' (th + 8) = ld16 m (th + 8)
        \<and> ld8 m' (th + 10) = Some (the (ld8 m (th + 10)) OR 0x81)
        \<and> ld8 m' (th + 11) = Some ((the (ld8 m (th + 11)) OR 0x80) AND 0xDF)
        \<and> ld16 m' (th + 12) = Some (htons 1) \<and> ld16 m' (th + 14) = Some (htons 1)
        \<and> ld16 m' (th + 16) = Some (htons 0) \<and> ld16 m' (th + 18) = Some (htons 0)
        \<and> take (length (qname q) + 5) (drop (th + 20) m') = take (length (qname q) + 5) (drop (th + 20) m)
        \<and> ld16 m' r = Some (htons 0xC00C) \<and> ld16 m' (r + 2) = Some (htons 1)
        \<and> ld16 m' (r + 4) = Some (htons 1) \<and> ld32 m' (r + 6) = Some (ttl node)
        \<and> ld16 m' (r + 10) = Some (htons 4) \<and> ld32 m' (r + 12) = Some (addr node)"
    using create_packet_contents [OF assms, of out] unfolding Let_def by blast
  note c = c [unfolded Let_def]
  let ?th = "transport_header q" and ?n = "length (qname q)"
  have tail: "?th + 20 + (?n + 5) \<le> length (skb_mem q)"
    using assms(2) by (simp add: dns_question_def rr_off_def)
  then obtain h where h: "dnshdr_at (skb_mem q) (?th + 8) = Some h"
    using dnshdr_at_Some [of "?th + 8" "skb_mem q"] by auto
  have "dnshdr_at (skb_mem a) (?th + 8) = Some (response_header h)"
    using c by (intro dnshdr_at_response [OF h]) (simp_all add: ac_simps)
  moreover have "question_at (skb_mem a) (?th + 20 + (?n + 1)) = question_at (skb_mem q) (?th + 20 + (?n + 1))"
    using c tail by (intro question_at_same [where n = "?n + 5"]) simp_all
  moreover have "?th + 25 + ?n - 4 = ?th + 20 + (?n + 1)" by simp
  ultimately show ?thesis
    using a c h by (intro exI [of _ a] exI [of _ h]) (simp add: Let_def r_data_at_def)
qed

theorem answer_is_wellformed_witness:
  "\<exists>a. create_packet linear_copy (\<lambda>_. 0) example_question
          \<lparr>host_name = [1, 97, 0], addr = 7, ttl = 60\<rparr> = Some (0, Some a)
      \<and> ld32 (skb_mem a) 16 = Some 0x100000A
      \<and> map_option rr_addr (r_data_at (skb_mem a) 47) = Some 7"
proof -
  let ?d = "\<lparr>host_name = [1, 97, 0], addr = 7, ttl = 60\<rparr> :: dns_node"
  have "terminated (host_name ?d)" "name_of ?d = qname example_question" by simp_all
  moreover obtain c where "linear_copy example_question 0 16 = Some c"
    using example_proxy_ok(4) by blast
  moreover have "network_header example_question = 0" "transport_header example_question = 20"
    "ld32 (skb_mem example_question) 12 = Some 0x100000A"
    by (simp_all add: example_dns_def Let_def ld32_eq word32_of_def)
  ultimately show ?thesis
    using answer_is_wellformed [OF linear.skb_library_axioms example_packet(3), of
        48 57 0 53 1 0 "[]" c ?d "\<lambda>_. 0"] by (auto simp: Let_def)
qed

end
