(* ===== verification/DnsTraffic.thy ===== *)
theory DnsTraffic
  imports DnsProxy
begin

text \<open>
  The DNS proxy in operation: its two hooks behind the points of the network stack where they are
  registered, over any traffic of packets that arrive and leave; and what happens when the answer that
  \<open>hook_out_packets\<close> hands to \<open>ip_local_out\<close> comes by the same hook.
\<close>

section \<open>The registered hooks\<close>

datatype dns_hook = Hook_In_Packets | Hook_Out_Packets

record nf_hook_ops =
  hook :: dns_hook
  pf :: int
  hooknum :: hooknum
  priority :: int

abbreviation (input) PF_INET :: int where "PF_INET \<equiv> 2"
abbreviation (input) NF_IP_PRI_FIRST :: int where "NF_IP_PRI_FIRST \<equiv> -2147483648"

definition n_ops_in :: nf_hook_ops where
  "n_ops_in = \<lparr>hook = Hook_In_Packets, pf = PF_INET, hooknum = NF_INET_PRE_ROUTING, priority = NF_IP_PRI_FIRST\<rparr>"

definition n_ops_out :: nf_hook_ops where
  "n_ops_out = \<lparr>hook = Hook_Out_Packets, pf = PF_INET, hooknum = NF_INET_POST_ROUTING, priority = NF_IP_PRI_FIRST\<rparr>"

text \<open>The hook of the module at a point of the stack, if there is one.\<close>

definition hook_at :: "hooknum \<Rightarrow> dns_hook option" where
  "hook_at h = map_option hook (List.find (\<lambda>ops. hooknum ops = h) [n_ops_in, n_ops_out])"

text \<open>
  One packet at a point of the stack: the verdict, the module's state, and the answer that was sent.
  Where the module has no hook, the packet goes on.
\<close>

definition at_point ::
  "(dns_node \<Rightarrow> 'c rb_root \<Rightarrow> 'c rb_root) \<Rightarrow> 'c \<Rightarrow> (sk_buff \<Rightarrow> nat \<Rightarrow> nat \<Rightarrow> sk_buff option) \<Rightarrow> (sk_buff \<Rightarrow> int)
   \<Rightarrow> hooknum \<Rightarrow> sk_buff \<Rightarrow> 'c proxy \<Rightarrow> ((verdict \<times> sk_buff option) \<times> 'c proxy) option" where
  "at_point rb c0 cp out h skb s =
     (case hook_at h of
        None \<Rightarrow> Some ((NF_ACCEPT, None), s)
      | Some Hook_In_Packets \<Rightarrow> do {
          (v, s) \<leftarrow> hook_in_packets rb c0 (htons 53) True True s skb;
          Some ((v, None), s) }
      | Some Hook_Out_Packets \<Rightarrow> do {
          (v, sent) \<leftarrow> hook_out_packets cp out (htons 53) True s skb;
          Some ((v, sent), s) })"

fun traffic ::
  "(dns_node \<Rightarrow> 'c rb_root \<Rightarrow> 'c rb_root) \<Rightarrow> 'c \<Rightarrow> (sk_buff \<Rightarrow> nat \<Rightarrow> nat \<Rightarrow> sk_buff option) \<Rightarrow> (sk_buff \<Rightarrow> int)
   \<Rightarrow> (hooknum \<times> sk_buff) list \<Rightarrow> 'c proxy \<Rightarrow> ((verdict \<times> sk_buff option) list \<times> 'c proxy) option" where
  "traffic rb c0 cp out [] s = Some ([], s)"
| "traffic rb c0 cp out ((h, skb) # ps) s = do {
     (r, s) \<leftarrow> at_point rb c0 cp out h skb s;
     (rs, s) \<leftarrow> traffic rb c0 cp out ps s;
     Some (r # rs, s) }"

text \<open>
  The packets that come by the outgoing hook while it handles one of them: \<open>ip_local_out\<close> takes the answer
  through the same point before it returns. Each of them needs a frame of the kernel's stack; \<open>n\<close> is the
  number of frames that there are.
\<close>

fun nested :: "nat \<Rightarrow> (sk_buff \<Rightarrow> nat \<Rightarrow> nat \<Rightarrow> sk_buff option) \<Rightarrow> (sk_buff \<Rightarrow> int) \<Rightarrow> 'c proxy \<Rightarrow> sk_buff
    \<Rightarrow> sk_buff list option" where
  "nested 0 cp out s skb = None"
| "nested (Suc n) cp out s skb = do {
     (v, sent) \<leftarrow> hook_out_packets cp out (htons 53) True s skb;
     (case sent of None \<Rightarrow> Some [skb]
      | Some a \<Rightarrow> do { rest \<leftarrow> nested n cp out s a; Some (skb # rest) }) }"

section \<open>Lemmas\<close>

lemma hook_at_simps [simp]:
  "hook_at NF_INET_PRE_ROUTING = Some Hook_In_Packets" "hook_at NF_INET_POST_ROUTING = Some Hook_Out_Packets"
  "hook_at NF_INET_LOCAL_IN = None"
  by (simp_all add: hook_at_def n_ops_in_def n_ops_out_def)

text \<open>Packets that the hooks can look at: those of DNS are whole, of the others the fields up to the ports are there.\<close>

definition ports_there :: "sk_buff \<Rightarrow> bool" where
  "ports_there p \<longleftrightarrow> network_header p + 9 < length (skb_mem p)
     \<and> (pkt_protocol p = IPPROTO_UDP \<longrightarrow> transport_header p + 3 < length (skb_mem p))"

definition arrives_ok :: "sk_buff \<Rightarrow> bool" where
  "arrives_ok p \<longleftrightarrow> ports_there p \<and> (pkt_protocol p = IPPROTO_UDP \<longrightarrow> pkt_sport p = 53 \<longrightarrow>
     dns_packet p \<and> rr_off p + 16 \<le> length (skb_mem p))"

definition leaves_ok :: "sk_buff \<Rightarrow> bool" where
  "leaves_ok p \<longleftrightarrow> ports_there p \<and> (pkt_protocol p = IPPROTO_UDP \<longrightarrow> pkt_dport p = 53 \<longrightarrow> dns_question p)"

fun packet_ok :: "hooknum \<times> sk_buff \<Rightarrow> bool" where
  "packet_ok (NF_INET_PRE_ROUTING, p) = arrives_ok p"
| "packet_ok (NF_INET_POST_ROUTING, p) = leaves_ok p"
| "packet_ok (NF_INET_LOCAL_IN, p) = True"

text \<open>The packets whose record is learned, if its name is new.\<close>

fun learnable :: "hooknum \<times> sk_buff \<Rightarrow> bool" where
  "learnable (h, p) \<longleftrightarrow> h = NF_INET_PRE_ROUTING \<and> pkt_protocol p = IPPROTO_UDP \<and> pkt_sport p = 53
     \<and> (rr_type p = 1 \<or> rr_data_len p = 4)"

text \<open>The first record that the traffic carried for a name.\<close>

definition first_record :: "(hooknum \<times> sk_buff) list \<Rightarrow> byte list \<Rightarrow> dns_node option" where
  "first_record ps n = map_option (rr_node \<circ> snd) (List.find (\<lambda>x. learnable x \<and> qname (snd x) = n) ps)"

lemma ports_there_loads:
  assumes "ports_there p"
  shows "ld8 (skb_mem p) (network_header p + 9) = Some (pkt_protocol p)"
    "pkt_protocol p = IPPROTO_UDP \<Longrightarrow> ld16 (skb_mem p) (transport_header p) = Some (htons (pkt_sport p))"
    "pkt_protocol p = IPPROTO_UDP \<Longrightarrow> ld16 (skb_mem p) (transport_header p + 2) = Some (htons (pkt_dport p))"
  using assms by (auto simp: ports_there_def pkt_protocol_def pkt_sport_def pkt_dport_def ld8_eq ld16_eq eval_nat_numeral)

lemma find_append:
  "List.find P (xs @ ys) = (case List.find P xs of None \<Rightarrow> List.find P ys | Some x \<Rightarrow> Some x)"
  by (induction xs) auto

lemma first_record_Cons:
  "first_record (x # ps) n =
     (if learnable x \<and> qname (snd x) = n then Some (rr_node (snd x)) else first_record ps n)"
  by (simp add: first_record_def)

text \<open>What a hook does with a packet that is not one of DNS.\<close>

lemma hook_in_other:
  assumes "ports_there p" "\<not> (pkt_protocol p = IPPROTO_UDP \<and> pkt_sport p = 53)"
  shows "hook_in_packets rb c0 (htons 53) True True s p = Some (NF_ACCEPT, s)"
  using ports_there_loads [OF assms(1)] assms(2) by (auto simp: hook_in_packets_def Let_def)

lemma hook_out_other:
  assumes "ports_there p" "\<not> (pkt_protocol p = IPPROTO_UDP \<and> pkt_dport p = 53)"
  shows "hook_out_packets cp out (htons 53) True s p = Some (NF_ACCEPT, None)"
  using ports_there_loads [OF assms(1)] assms(2) by (auto simp: hook_out_packets_def Let_def)

lemma hook_in_any:
  assumes "rb_library rb" "tree_ok (dns_tree s)" "arrives_ok p"
  shows "\<exists>s'. hook_in_packets rb c0 (htons 53) True True s p = Some (NF_ACCEPT, s') \<and> tree_ok (dns_tree s')
    \<and> (\<forall>n. cached (dns_tree s') n = (case cached (dns_tree s) n of Some d \<Rightarrow> Some d
         | None \<Rightarrow> first_record [(NF_INET_PRE_ROUTING, p)] n))"
proof (cases "pkt_protocol p = IPPROTO_UDP \<and> pkt_sport p = 53")
  case False
  then have "\<not> learnable (NF_INET_PRE_ROUTING, p)" by auto
  then have "first_record [(NF_INET_PRE_ROUTING, p)] n = None" for n by (simp add: first_record_def)
  with hook_in_other [of p rb c0 s] False assms(2,3) show ?thesis
    by (auto simp: arrives_ok_def split: option.splits)
next
  case dns: True
  then have p: "dns_packet p" "rr_off p + 16 \<le> length (skb_mem p)" using assms(3) by (auto simp: arrives_ok_def)
  have first: "first_record [(NF_INET_PRE_ROUTING, p)] n =
      (if (rr_type p = 1 \<or> rr_data_len p = 4) \<and> qname p = n then Some (rr_node p) else None)" for n
    using dns by (simp add: first_record_def)
  show ?thesis
  proof (cases "cached (dns_tree s) (qname p)")
    case None
    with hook_in_new [OF assms(1) p assms(2) None, of "htons 53" c0] dns assms(2) show ?thesis
      by (auto simp: first split: option.splits if_splits)
  next
    case (Some d)
    with hook_in_known [OF p(1) assms(2), of rb c0 "htons 53" True] assms(2) show ?thesis
      by (auto simp: first split: option.splits)
  qed
qed

lemma hook_out_any:
  assumes "skb_library cp" "tree_ok (dns_tree s)" "leaves_ok p"
  shows "\<exists>r. hook_out_packets cp out (htons 53) True s p = Some r"
proof (cases "pkt_protocol p = IPPROTO_UDP \<and> pkt_dport p = 53")
  case False
  with hook_out_other [of p cp out s] assms(3) show ?thesis by (auto simp: leaves_ok_def)
next
  case True
  then have q: "dns_question p" "pkt_dport p = 53" using assms(3) by (auto simp: leaves_ok_def)
  show ?thesis
  proof (cases "cached (dns_tree s) (qname p)")
    case None
    then show ?thesis by (simp add: hook_out_eq [OF q(1) assms(2)])
  next
    case (Some node)
    show ?thesis
    proof (cases "cp p 0 16")
      case None
      with Some q(2) show ?thesis by (simp add: hook_out_eq [OF q(1) assms(2)] create_packet_def)
    next
      case c: (Some c)
      then show ?thesis using skb_library.answer_sent [OF assms(1) q(1) assms(2) q(2) Some c, of out] by blast
    qed
  qed
qed

lemma at_point_ok:
  assumes "rb_library rb" "skb_library cp" "tree_ok (dns_tree s)" "packet_ok (h, p)"
  shows "\<exists>r s'. at_point rb c0 cp out h p s = Some (r, s') \<and> tree_ok (dns_tree s')
    \<and> (\<forall>n. cached (dns_tree s') n = (case cached (dns_tree s) n of Some d \<Rightarrow> Some d | None \<Rightarrow> first_record [(h, p)] n))"
proof (cases h)
  case NF_INET_PRE_ROUTING
  with hook_in_any [OF assms(1,3), of p c0] assms(4) show ?thesis by (auto simp: at_point_def)
next
  case NF_INET_LOCAL_IN
  then show ?thesis using assms(3) by (auto simp: at_point_def first_record_def split: option.splits)
next
  case NF_INET_POST_ROUTING
  then obtain r where "hook_out_packets cp out (htons 53) True s p = Some r"
    using hook_out_any [OF assms(2,3), of p out] assms(4) by auto
  then show ?thesis
    using NF_INET_POST_ROUTING assms(3)
    by (auto simp: at_point_def first_record_def split: option.splits prod.splits)
qed

lemma traffic_ok:
  assumes "rb_library rb" "skb_library cp"
  shows "\<forall>x \<in> set ps. packet_ok x \<Longrightarrow> tree_ok (dns_tree s) \<Longrightarrow>
    \<exists>rs s'. traffic rb c0 cp out ps s = Some (rs, s') \<and> length rs = length ps \<and> tree_ok (dns_tree s')
      \<and> (\<forall>n. cached (dns_tree s') n = (case cached (dns_tree s) n of Some d \<Rightarrow> Some d | None \<Rightarrow> first_record ps n))"
proof (induction ps arbitrary: s)
  case Nil
  then show ?case by (auto simp: first_record_def split: option.splits)
next
  case (Cons x ps)
  obtain h p where x: "x = (h, p)" by fastforce
  then obtain r s1 where s1: "at_point rb c0 cp out h p s = Some (r, s1)" "tree_ok (dns_tree s1)"
    "\<And>n. cached (dns_tree s1) n = (case cached (dns_tree s) n of Some d \<Rightarrow> Some d | None \<Rightarrow> first_record [x] n)"
    using at_point_ok [OF assms Cons.prems(2), of h p c0 out] Cons.prems(1) by auto
  from Cons.IH [OF _ s1(2)] Cons.prems(1) obtain rs s2 where
    "traffic rb c0 cp out ps s1 = Some (rs, s2)" "length rs = length ps" "tree_ok (dns_tree s2)"
    "\<And>n. cached (dns_tree s2) n = (case cached (dns_tree s1) n of Some d \<Rightarrow> Some d | None \<Rightarrow> first_record ps n)"
    by auto
  with s1 show ?case
    by (auto simp: x first_record_Cons first_record_def [of "[]"] split: option.splits)
qed

text \<open>The answer can be asked about again: it is as complete as the question.\<close>

lemma reply_question:
  assumes "skb_library cp" "dns_question q" "cp q 0 16 = Some c" "name_of node = qname q"
  shows "dns_question (reply c (skb_rtable q) node)"
proof -
  have q: "rr_off q \<le> skb_tail q" "skb_tail q \<le> length (skb_mem q)" "skb_rtable q \<noteq> None" "skb_dev q \<noteq> None"
    using assms(2) by (simp_all add: dns_question_def)
  have "copy_of q 16 c" using skb_library.copies [OF assms(1) q(2) assms(3)] .
  then have "skb_tail (reply c (skb_rtable q) node) = skb_tail q + 16" "skb_dev (reply c (skb_rtable q) node) = skb_dev q"
    "skb_tail q + 16 \<le> length (skb_mem (reply c (skb_rtable q) node))"
    by (simp_all add: copy_of_def reply_def)
  moreover have "skb_rtable (reply c (skb_rtable q) node) = skb_rtable q" by (simp add: reply_def)
  ultimately show ?thesis
    using q skb_library.reply_packet(1) [OF assms(1-4)] skb_library.reply_name(3) [OF assms(1-4), of "skb_rtable q"]
    by (simp add: dns_question_def)
qed

lemma nested_answer:
  assumes "skb_library cp" "tree_ok (dns_tree s)" "dns_question q" "pkt_dport q = 53"
    and "cached (dns_tree s) (qname q) \<noteq> None" "cp q 0 16 \<noteq> None"
  obtains a where "\<And>n. nested (Suc n) cp out s q = map_option ((#) q) (nested n cp out s a)"
    "dns_question a" "qname a = qname q" "pkt_sport a = 53" "pkt_dport a = pkt_sport q"
proof -
  obtain node c where n: "cached (dns_tree s) (qname q) = Some node" "cp q 0 16 = Some c" using assms(5,6) by auto
  note name = cached_name [OF n(1), THEN conjunct2]
  show ?thesis
  proof
    show "nested (Suc k) cp out s q = map_option ((#) q) (nested k cp out s (reply c (skb_rtable q) node))" for k
      using skb_library.answer_sent [OF assms(1,3,2,4) n, of out]
      by (cases "nested k cp out s (reply c (skb_rtable q) node)") simp_all
    show "dns_question (reply c (skb_rtable q) node)" by (rule reply_question [OF assms(1,3) n(2) name])
    show "qname (reply c (skb_rtable q) node) = qname q" by (rule skb_library.reply_name(1) [OF assms(1,3) n(2) name])
    show "pkt_sport (reply c (skb_rtable q) node) = 53" "pkt_dport (reply c (skb_rtable q) node) = pkt_sport q"
      using skb_library.reply_packet(6,7) [OF assms(1,3) n(2) name] assms(4) by simp_all
  qed
qed

lemma nested_for_ever:
  assumes "skb_library cp" "tree_ok (dns_tree s)" "\<forall>p. dns_question p \<longrightarrow> cp p 0 16 \<noteq> None"
  shows "dns_question q \<Longrightarrow> pkt_sport q = 53 \<Longrightarrow> pkt_dport q = 53 \<Longrightarrow> cached (dns_tree s) (qname q) \<noteq> None \<Longrightarrow>
    nested n cp out s q = None"
proof (induction n arbitrary: q)
  case (Suc n)
  then obtain a where a: "\<And>n. nested (Suc n) cp out s q = map_option ((#) q) (nested n cp out s a)"
    "dns_question a" "qname a = qname q" "pkt_sport a = 53" "pkt_dport a = pkt_sport q"
    using nested_answer [OF assms(1,2) Suc.prems(1,3,4), of out] assms(3) by metis
  with Suc.IH [OF a(2,4)] Suc.prems(2,4) show ?case by (simp only: a(1,3,5)) simp
qed simp

section \<open>Properties\<close>


definition example_traffic :: "(hooknum \<times> sk_buff) list" where
  "example_traffic = [(NF_INET_POST_ROUTING, example_question), (NF_INET_PRE_ROUTING, example_response 1 4),
     (NF_INET_LOCAL_IN, example_response 1 4), (NF_INET_PRE_ROUTING, example_response 5 4)]"

lemma example_traffic_ok:
  "\<forall>x \<in> set example_traffic. packet_ok x"
  "map_option ttl (first_record example_traffic [1, 97]) = Some 0x3C000000"
proof -
  have sport: "pkt_sport (example_response t 4) = 53" for t by (simp add: example_sport word16_of_def bswap16_def)
  have prot: "pkt_protocol (example_dns [a, b, c, d] [e, f] r) = 17" for a b c d e f r
    using example_packet(2) by (simp add: dns_packet_def)
  have there: "ports_there (example_dns [a, b, c, d] [e, f] r)" for a b c d e f r
    by (simp add: ports_there_def) (simp add: example_dns_def Let_def)
  show "\<forall>x \<in> set example_traffic. packet_ok x"
    using there example_packet by (simp add: example_traffic_def arrives_ok_def leaves_ok_def)
  have "rr_data_len (example_response 1 4) = 4" "ttl (rr_node (example_response 1 4)) = 0x3C000000"
    by (simp_all add: rr_data_len_def rr_node_def example_packet ld16_eq ld32_eq)
      (simp_all add: example_dns_def Let_def word16_of_def word32_of_def bswap16_def)
  then show "map_option ttl (first_record example_traffic [1, 97]) = Some 0x3C000000"
    by (simp add: example_traffic_def first_record_def sport prot)
qed




end
