(* ===== verification/UserAccess.thy ===== *)
theory UserAccess
  imports Prelude
begin

text \<open>
  User memory as the kernel modules see it, and the kernel routines by which they reach it. The
  routines are not part of the repository. They are parameters, and the locale \<open>user_access\<close>
  states what is documented of them: \<open>strncpy_from_user\<close> returns the length of a short string
  and copies its zero, returns the count and copies no zero when the string is not shorter than
  the count, and returns \<^verbatim>\<open>-EFAULT\<close> when the memory cannot be read; \<open>put_user\<close> and
  \<open>copy_to_user\<close> write where the memory is mapped. It never copies more than the count, but what
  stands behind the zero within the count is open.
\<close>

type_synonym umem = "nat \<Rightarrow> byte option"
type_synonym str_from_user = "umem \<Rightarrow> nat \<Rightarrow> nat \<Rightarrow> int \<times> byte list"
type_synonym put_to_user = "umem \<Rightarrow> nat \<Rightarrow> byte \<Rightarrow> umem"
type_synonym block_to_user = "umem \<Rightarrow> nat \<Rightarrow> byte list \<Rightarrow> umem"

abbreviation (input) EFAULT :: int where "EFAULT \<equiv> 14"
abbreviation (input) EBUSY :: int where "EBUSY \<equiv> 16"
abbreviation (input) ENOMEM :: int where "ENOMEM \<equiv> 12"

text \<open>The calls by which a module creates and removes its proc file.\<close>

datatype proc_call = Proc_Create | Remove_Proc_Entry

fun uread :: "umem \<Rightarrow> nat \<Rightarrow> nat \<Rightarrow> byte list option" where
  "uread um a 0 = Some []"
| "uread um a (Suc n) = do { b \<leftarrow> um a; bs \<leftarrow> uread um (a + 1) n; Some (b # bs) }"

text \<open>A zero-terminated string in user memory, and a writable range.\<close>

definition ustr :: "umem \<Rightarrow> nat \<Rightarrow> byte list \<Rightarrow> bool" where
  "ustr um a s \<longleftrightarrow> 0 \<notin> set s \<and> uread um a (length s + 1) = Some (s @ [0])"

definition mapped :: "umem \<Rightarrow> nat \<Rightarrow> nat \<Rightarrow> bool" where
  "mapped um a n \<longleftrightarrow> (\<forall>i < n. um (a + i) \<noteq> None)"

fun uwrite :: "umem \<Rightarrow> nat \<Rightarrow> byte list \<Rightarrow> umem" where
  "uwrite um a [] = um"
| "uwrite um a (b # bs) = uwrite (um(a \<mapsto> b)) (a + 1) bs"

lemma uread_length: "uread um a n = Some bs \<Longrightarrow> length bs = n"
  by (induction um a n arbitrary: bs rule: uread.induct) (auto split: bind_splits)

lemma uwrite_other: "b < a \<or> a + length bs \<le> b \<Longrightarrow> uwrite um a bs b = um b"
  by (induction um a bs rule: uwrite.induct) auto

lemma mapped_uwrite [simp]: "mapped um a n \<Longrightarrow> mapped (uwrite um b bs) a n"
proof (induction bs arbitrary: um b)
  case (Cons c bs)
  then have "mapped (um(b \<mapsto> c)) a n" by (simp add: mapped_def)
  with Cons show ?case by simp
qed simp

lemma mapped_mono: "mapped um a n \<Longrightarrow> m \<le> n \<Longrightarrow> mapped um a m"
  by (simp add: mapped_def)

lemma mapped_Suc: "mapped um a (Suc n) \<longleftrightarrow> um a \<noteq> None \<and> mapped um (a + 1) n"
  by (auto simp: mapped_def less_Suc_eq_0_disj)

lemma uread_uwrite: "uread (uwrite um a bs) a (length bs) = Some bs"
  by (induction bs arbitrary: um a) (simp_all add: uwrite_other)

lemma uread_cong: "(\<And>i. i < n \<Longrightarrow> um (a + i) = um' (a + i)) \<Longrightarrow> uread um a n = uread um' a n"
proof (induction n arbitrary: a)
  case (Suc n)
  have "um a = um' a" using Suc.prems [of 0] by simp
  moreover have "uread um (a + 1) n = uread um' (a + 1) n"
    using Suc.prems [of "Suc i" for i] by (intro Suc.IH) simp
  ultimately show ?case by simp
qed simp

lemma uwrite_append: "uwrite um a (xs @ ys) = uwrite (uwrite um a xs) (a + length xs) ys"
  by (induction xs arbitrary: um a) simp_all

lemma ustr_uwrite [simp]: "0 \<notin> set s \<Longrightarrow> ustr (uwrite um a (s @ [0])) a s"
  using uread_uwrite [of um a "s @ [0]"] by (simp add: ustr_def)

lemma ustr_uwrite_other:
  assumes "ustr um a s" "b + length bs \<le> a \<or> a + length s < b"
  shows "ustr (uwrite um b bs) a s"
proof -
  have "uread (uwrite um b bs) a (length s + 1) = uread um a (length s + 1)"
    using assms(2) by (intro uread_cong uwrite_other) auto
  with assms(1) show ?thesis by (simp add: ustr_def)
qed

lemma uread_mapped: "mapped um a n \<Longrightarrow> \<exists>bs. uread um a n = Some bs"
  by (induction n arbitrary: a) (fastforce simp: mapped_Suc)+

lemma uread_add:
  "uread um a (m + k) = do { xs \<leftarrow> uread um a m; ys \<leftarrow> uread um (a + m) k; Some (xs @ ys) }"
  by (induction m arbitrary: a) (auto split: bind_splits)

lemma uread_take:
  assumes "uread um a n = Some bs" "m \<le> n"
  shows "uread um a m = Some (take m bs)"
proof -
  from assms(2) have n: "n = m + (n - m)" by simp
  obtain xs ys where "uread um a m = Some xs" "bs = xs @ ys"
    using assms(1) by (subst (asm) n) (auto simp: uread_add split: bind_splits)
  with uread_length [of um a m xs] show ?thesis by simp
qed

lemma uread_nth: "uread um a n = Some bs \<Longrightarrow> i < n \<Longrightarrow> um (a + i) = Some (bs ! i)"
proof (induction um a n arbitrary: bs i rule: uread.induct)
  case (2 um a n)
  then show ?case by (cases i) (fastforce split: bind_splits)+
qed simp

text \<open>\<^verbatim>\<open>strlen\<close> applied to an address in user memory, as some of the modules do.\<close>

partial_function (option) ustrlen :: "umem \<Rightarrow> nat \<Rightarrow> nat option" where
  "ustrlen um a = do {
     b \<leftarrow> um a;
     if b = 0 then Some 0 else do { n \<leftarrow> ustrlen um (a + 1); Some (n + 1) } }"

lemma ustrlen_ustr: "ustr um a s \<Longrightarrow> ustrlen um a = Some (length s)"
proof (induction s arbitrary: a)
  case Nil
  then show ?case by (subst ustrlen.simps) (auto simp: ustr_def split: bind_splits)
next
  case (Cons b s)
  then have "um a = Some b" "b \<noteq> 0" "ustr um (a + 1) s"
    by (auto simp: ustr_def split: bind_splits)
  with Cons.IH [of "a + 1"] show ?case by (subst ustrlen.simps) simp
qed

lemma uread_ustr: "uread um a n = Some bs \<Longrightarrow> terminated bs \<Longrightarrow> ustr um a (cstr bs)"
  using uread_take [of um a n bs "length (cstr bs) + 1"] uread_length [of um a n bs]
    length_cstr_less [of bs] terminated_split [of bs]
  by (auto simp: ustr_def) (metis append_Cons append_Nil append_eq_conv_conj append.assoc length_append_singleton)

text \<open>A mapped buffer that holds a string, read as a whole.\<close>

lemma uread_string:
  assumes "mapped um a n" "ustr um a s" "length s < n"
  shows "\<exists>bs. uread um a n = Some bs \<and> cstr bs = s \<and> terminated bs"
proof -
  from assms(3) obtain k where k: "n = (length s + 1) + k" using less_imp_Suc_add by fastforce
  have "mapped um (a + (length s + 1)) k"
    using assms(1) k by (auto simp: mapped_def) (metis add.assoc add_Suc add_Suc_right nat_add_left_cancel_less)
  then obtain ys where "uread um (a + (length s + 1)) k = Some ys" using uread_mapped by blast
  then have "uread um a n = Some (s @ 0 # ys)"
    using assms(2) uread_add [of um a "length s + 1" k] unfolding k ustr_def
    by (simp only: Option.bind.simps append.assoc append.simps)
  moreover have "0 \<notin> set s" using assms(2) by (simp add: ustr_def)
  ultimately show ?thesis by (auto simp: cstr_append)
qed

section \<open>The kernel's routines\<close>

locale user_access =
  fixes strncpy_from_user :: str_from_user
    and put_user :: put_to_user
    and copy_to_user :: block_to_user
  assumes short_string: "ustr um a s \<Longrightarrow> length s < n \<Longrightarrow>
        \<exists>t. strncpy_from_user um a n = (int (length s), s @ 0 # t) \<and> length s + length t < n"
    and long_string: "uread um a n = Some bs \<Longrightarrow> 0 \<notin> set bs \<Longrightarrow>
        strncpy_from_user um a n = (int n, bs)"
    and unreadable: "uread um a n = None \<Longrightarrow> (\<nexists>s. length s < n \<and> ustr um a s) \<Longrightarrow>
        fst (strncpy_from_user um a n) = - EFAULT"
    and never_more: "length (snd (strncpy_from_user um a n)) \<le> n"
    and put_mapped: "um a \<noteq> None \<Longrightarrow> put_user um a b = um(a \<mapsto> b)"
    and put_unmapped: "um a = None \<Longrightarrow> put_user um a b = um"
    and copy_mapped: "mapped um a (length bs) \<Longrightarrow> copy_to_user um a bs = uwrite um a bs"
begin

text \<open>The block that is copied, laid over a kernel buffer of at least the size of the count.\<close>

lemma string_arrives:
  assumes "ustr um a s" "length s < n" "strncpy_from_user um a n = (i, w)"
  shows "i = int (length s)" "cstr (w @ rest) = s" "terminated (w @ rest)" "length w \<le> n"
proof -
  obtain t where t: "(i, w) = (int (length s), s @ 0 # t)" "length s + length t < n"
    using short_string [OF assms(1,2)] assms(3) by metis
  moreover have "0 \<notin> set s" using assms(1) by (simp add: ustr_def)
  ultimately show "i = int (length s)" "cstr (w @ rest) = s" "terminated (w @ rest)" "length w \<le> n"
    by (auto simp: cstr_append)
qed

end

context user_access
begin

text \<open>A string of any length: the block is the string and its zero, or its first bytes.\<close>

lemma string_cut:
  assumes "ustr um a s" "strncpy_from_user um a n = (i, w)"
  shows "i = int (min (length s) n) \<and> length w \<le> n
    \<and> (if length s < n then \<exists>t. w = s @ 0 # t else w = take n s)"
proof (cases "length s < n")
  case True
  with short_string [OF assms(1), of n] assms(2) show ?thesis by auto
next
  case False
  have "uread um a n = Some (take n (s @ [0]))"
    using assms(1) False uread_take [of um a "length s + 1" "s @ [0]" n] by (simp add: ustr_def)
  moreover have "0 \<notin> set (take n s)" using assms(1) by (auto simp: ustr_def dest: in_set_takeD)
  ultimately have "strncpy_from_user um a n = (int n, take n s)"
    using long_string [of um a n "take n s"] False by simp
  with assms(2) False show ?thesis by auto
qed

end

text \<open>
  Routines that meet the contract: they copy byte by byte, stop after the zero or before the
  first unmapped byte.
\<close>

fun copy_str :: "umem \<Rightarrow> nat \<Rightarrow> nat \<Rightarrow> int \<times> byte list" where
  "copy_str um a 0 = (0, [])"
| "copy_str um a (Suc n) =
     (case um a of
        None \<Rightarrow> (- EFAULT, [])
      | Some b \<Rightarrow> if b = 0 then (0, [0])
          else (let (i, w) = copy_str um (a + 1) n in (if i < 0 then i else i + 1, b # w)))"

definition put_byte :: "umem \<Rightarrow> nat \<Rightarrow> byte \<Rightarrow> umem" where
  "put_byte um a b = (if um a = None then um else um(a \<mapsto> b))"

lemma copy_str_short:
  "0 \<notin> set s \<Longrightarrow> uread um a (length s + 1) = Some (s @ [0]) \<Longrightarrow> length s < n \<Longrightarrow>
   copy_str um a n = (int (length s), s @ [0])"
proof (induction s arbitrary: a n)
  case Nil
  then show ?case by (cases n) (auto split: bind_splits)
next
  case (Cons b s)
  then obtain m where n: "n = Suc m" by (cases n) auto
  with Cons show ?case by (auto split: bind_splits)
qed

lemma copy_str_long:
  "uread um a n = Some bs \<Longrightarrow> 0 \<notin> set bs \<Longrightarrow> copy_str um a n = (int n, bs)"
  by (induction um a n arbitrary: bs rule: copy_str.induct) (auto split: bind_splits)

lemma copy_str_fault:
  "uread um a n = None \<Longrightarrow> (\<nexists>s. length s < n \<and> ustr um a s) \<Longrightarrow> fst (copy_str um a n) = - 14"
proof (induction um a n rule: copy_str.induct)
  case (2 um a n)
  show ?case
  proof (cases "um a")
    case (Some b)
    have "ustr um a []" if "b = 0" using Some that by (simp add: ustr_def)
    then have b: "b \<noteq> 0" using "2.prems"(2) by (metis length_greater_0_conv less_nat_zero_code zero_less_Suc list.size(3))
    moreover have "uread um (a + 1) n = None" using 2 Some by (auto split: bind_splits)
    moreover have "\<nexists>s. length s < n \<and> ustr um (a + 1) s"
    proof
      assume "\<exists>s. length s < n \<and> ustr um (a + 1) s"
      then obtain s where "length s < n" "ustr um (a + 1) s" by blast
      then have "length (b # s) < Suc n \<and> ustr um a (b # s)"
        using b Some by (simp add: ustr_def)
      with "2.prems"(2) show False by blast
    qed
    ultimately have "fst (copy_str um (a + 1) n) = - 14" using "2.IH" [OF Some] by auto
    then show ?thesis using Some b by (auto split: prod.splits)
  qed simp
qed simp

lemma copy_str_length: "length (snd (copy_str um a n)) \<le> n"
  by (induction um a n rule: copy_str.induct) (auto split: option.splits prod.splits)

interpretation bytewise: user_access copy_str put_byte uwrite
proof
  fix um a s and n :: nat
  assume "ustr um a s" "length s < n"
  then show "\<exists>t. copy_str um a n = (int (length s), s @ 0 # t) \<and> length s + length t < n"
    using copy_str_short [of s um a n] by (auto simp: ustr_def)
qed (auto simp: copy_str_long copy_str_fault copy_str_length put_byte_def)

end
