(* ===== verification/CharDevice.thy ===== *)
theory CharDevice
  imports UserAccess
begin

text \<open>
  The character device of core/ioctldev: ioctl\_dev.c, the module, and main.c, its user program.
  The module's state is the open counter, the 80 byte message and the read position \<^verbatim>\<open>msg_ptr\<close>,
  which stays null until the first open or write. The user program is modelled with the device
  calls it makes and the text it prints.
\<close>

section \<open>The module\<close>

record chardev =
  Device_Open :: int
  dev_msg :: "byte list"
  msg_ptr :: "nat option"

abbreviation (input) BUF_LEN :: nat where "BUF_LEN \<equiv> 80"

definition dev_loaded :: chardev where
  "dev_loaded = \<lparr>Device_Open = 0, dev_msg = replicate BUF_LEN 0, msg_ptr = None\<rparr>"

text \<open>The request numbers of ioctl\_dev.h: direction, size, type 100 and number.\<close>

definition IOCTL_SET_MSG :: u32 where "IOCTL_SET_MSG = 0x80086400"
definition IOCTL_GET_MSG :: u32 where "IOCTL_GET_MSG = 0x80086401"
definition IOCTL_GET_NTH_BYTE :: u32 where "IOCTL_GET_NTH_BYTE = 0xC0046402"

lemmas ioctl_numbers = IOCTL_SET_MSG_def IOCTL_GET_MSG_def IOCTL_GET_NTH_BYTE_def

definition device_open :: "chardev \<Rightarrow> int \<times> chardev" where
  "device_open d =
     (if Device_Open d \<noteq> 0 then (- EBUSY, d)
      else (0, d\<lparr>Device_Open := Device_Open d + 1, msg_ptr := Some 0\<rparr>))"

definition device_release :: "chardev \<Rightarrow> int \<times> chardev" where
  "device_release d = (0, d\<lparr>Device_Open := Device_Open d - 1\<rparr>)"

text \<open>The loop of \<open>device_read\<close>: bytes read, position in the message, user memory.\<close>

fun read_loop :: "put_to_user \<Rightarrow> byte list \<Rightarrow> nat \<Rightarrow> umem \<Rightarrow> nat \<Rightarrow> nat \<Rightarrow> int
    \<Rightarrow> (int \<times> nat \<times> umem) option" where
  "read_loop put msg p um buffer 0 n = Some (n, p, um)"
| "read_loop put msg p um buffer (Suc len) n = do {
     c \<leftarrow> ld8 msg p;
     if c = 0 then Some (n, p, um)
     else read_loop put msg (p + 1) (put um buffer c) (buffer + 1) len (n + 1) }"

definition device_read :: "put_to_user \<Rightarrow> chardev \<Rightarrow> umem \<Rightarrow> nat \<Rightarrow> nat
    \<Rightarrow> (int \<times> chardev \<times> umem) option" where
  "device_read put d um buffer len = do {
     p \<leftarrow> msg_ptr d;
     c \<leftarrow> ld8 (dev_msg d) p;
     if c = 0 then Some (0, d, um) else do {
       (bytes_read, p, um) \<leftarrow> read_loop put (dev_msg d) p um buffer len 0;
       Some (bytes_read, d\<lparr>msg_ptr := Some p\<rparr>, um) } }"

definition device_write :: "str_from_user \<Rightarrow> chardev \<Rightarrow> umem \<Rightarrow> nat \<Rightarrow> nat \<Rightarrow> int \<times> chardev" where
  "device_write sncpy d um buffer len =
     (let (i, w) = sncpy um buffer BUF_LEN
      in (i, d\<lparr>dev_msg := w @ drop (length w) (dev_msg d), msg_ptr := Some 0\<rparr>))"

definition device_ioctl :: "str_from_user \<Rightarrow> put_to_user \<Rightarrow> chardev \<Rightarrow> umem \<Rightarrow> u32 \<Rightarrow> nat
    \<Rightarrow> (int \<times> chardev \<times> umem) option" where
  "device_ioctl sncpy put d um ioctl_num ioctl_param =
     (if ioctl_num = IOCTL_SET_MSG then
        let (i, w) = sncpy um ioctl_param BUF_LEN;
            d = d\<lparr>dev_msg := w @ drop (length w) (dev_msg d)\<rparr>;
            (_, d) = device_write sncpy d um ioctl_param (nat i)
        in Some (0, d, um)
      else if ioctl_num = IOCTL_GET_MSG then do {
        (i, d, um) \<leftarrow> device_read put d um ioctl_param 99;
        Some (0, d, put um (nat (int ioctl_param + i)) 0) }
      else if ioctl_num = IOCTL_GET_NTH_BYTE then do {
        c \<leftarrow> ld8 (dev_msg d) ioctl_param;
        Some (sint c, d, um) }
      else Some (0, d, um))"

text \<open>Loading and unloading; \<open>ret_val\<close> is the answer of \<open>register_chrdev\<close>.\<close>

datatype chrdev_call = Register_Chrdev nat | Unregister_Chrdev nat

definition m_init_ioctl :: "int \<Rightarrow> int \<times> chrdev_call list" where
  "m_init_ioctl ret_val =
     (if ret_val < 0 then (ret_val, [Register_Chrdev 100]) else (0, [Register_Chrdev 100]))"

definition m_cleanup_ioctl :: "chrdev_call list" where
  "m_cleanup_ioctl = [Unregister_Chrdev 100]"

section \<open>The user program\<close>

text \<open>
  The output of the program is the sequence of its \<^verbatim>\<open>printf\<close> and \<^verbatim>\<open>putchar\<close> calls, one
  constructor for each of them, with the values that are printed; the second component of a
  result is false where the code calls \<^verbatim>\<open>exit(-1)\<close>. The C library turns every negative answer
  of a device into \<open>-1\<close>, which takes the same branches.
\<close>

datatype printed = Set_failed int | Set_message "byte list" | Get_failed int
  | Get_message "byte list" | Nth_header | Nth_failed nat | Char byte | Cannot_open

type_synonym dev_run = "(printed list \<times> bool \<times> chardev \<times> umem) option"

definition ioctl_set_msg :: "str_from_user \<Rightarrow> put_to_user \<Rightarrow> chardev \<Rightarrow> umem \<Rightarrow> nat \<Rightarrow> byte list
    \<Rightarrow> dev_run" where
  "ioctl_set_msg sncpy put d um message text = do {
     (ret_val, d, um) \<leftarrow> device_ioctl sncpy put d um IOCTL_SET_MSG message;
     if ret_val < 0 then Some ([Set_failed ret_val], False, d, um)
     else Some ([Set_message text], True, d, um) }"

text \<open>\<open>message\<close> is the address of the local array of 100 bytes.\<close>

definition ioctl_get_msg :: "str_from_user \<Rightarrow> put_to_user \<Rightarrow> chardev \<Rightarrow> umem \<Rightarrow> nat \<Rightarrow> dev_run" where
  "ioctl_get_msg sncpy put d um message = do {
     (ret_val, d, um) \<leftarrow> device_ioctl sncpy put d um IOCTL_GET_MSG message;
     if ret_val < 0 then Some ([Get_failed ret_val], False, d, um)
     else do {
       text \<leftarrow> uread um message 100;
       _ \<leftarrow> strlen text;
       Some ([Get_message (cstr text)], True, d, um) } }"

text \<open>
  The loop of \<^verbatim>\<open>ioctl_get_nth_byte\<close>: the returned \<^verbatim>\<open>long\<close> is cut to a signed \<^verbatim>\<open>char\<close>, and a
  negative one ends the program. The loop runs until the module answers with a zero; each
  round asks for the next byte, so \<open>fuel\<close> rounds are enough as soon as \<open>fuel\<close> exceeds the length
  of the message: at its end the module reads outside it.
\<close>

fun nth_byte_loop :: "str_from_user \<Rightarrow> put_to_user \<Rightarrow> nat \<Rightarrow> chardev \<Rightarrow> umem \<Rightarrow> nat \<Rightarrow> dev_run" where
  "nth_byte_loop sncpy put 0 d um i = None"
| "nth_byte_loop sncpy put (Suc fuel) d um i = do {
     (r, d, um) \<leftarrow> device_ioctl sncpy put d um IOCTL_GET_NTH_BYTE i;
     let c = (word_of_int r :: byte);
     if sint c < 0 then Some ([Nth_failed (i + 1)], False, d, um)
     else if c \<noteq> 0 then do {
       (out, ok, d, um) \<leftarrow> nth_byte_loop sncpy put fuel d um (i + 1);
       Some (Char c # out, ok, d, um) }
     else Some ([Char c, Char 10], True, d, um) }"

definition ioctl_get_nth_byte :: "str_from_user \<Rightarrow> put_to_user \<Rightarrow> chardev \<Rightarrow> umem \<Rightarrow> dev_run" where
  "ioctl_get_nth_byte sncpy put d um = do {
     (out, ok, d, um) \<leftarrow> nth_byte_loop sncpy put (BUF_LEN + 1) d um 0;
     Some (Nth_header # out, ok, d, um) }"

text \<open>\<open>f ;; g\<close> in the code: the second call is made when the first did not exit.\<close>

definition after :: "dev_run \<Rightarrow> (chardev \<Rightarrow> umem \<Rightarrow> dev_run) \<Rightarrow> dev_run" where
  "after r f = do {
     (out, ok, d, um) \<leftarrow> r;
     if ok then do { (out', ok', d', um') \<leftarrow> f d um; Some (out @ out', ok', d', um') }
     else Some (out, False, d, um) }"

text \<open>"HELLO IOCTL" and a line feed; the literal stands at the address \<open>lit\<close>.\<close>

definition hello :: "byte list" where
  "hello = [72, 69, 76, 76, 79, 32, 73, 79, 67, 84, 76, 10]"

text \<open>The device is released at \<^verbatim>\<open>close\<close>, and by the kernel when the program exits earlier.\<close>

definition ioctl_main :: "str_from_user \<Rightarrow> put_to_user \<Rightarrow> nat \<Rightarrow> nat \<Rightarrow> chardev \<Rightarrow> umem \<Rightarrow> dev_run" where
  "ioctl_main sncpy put lit buf d um =
     (let (file_desc, d) = device_open d
      in if file_desc < 0 then Some ([Cannot_open], False, d, um) else do {
        (out, ok, d, um) \<leftarrow> after (ioctl_get_nth_byte sncpy put d um) (\<lambda>d um.
          after (ioctl_get_msg sncpy put d um buf) (\<lambda>d um.
            ioctl_set_msg sncpy put d um lit hello));
        Some (out, ok, snd (device_release d), um) })"

section \<open>Reading\<close>

text \<open>What is still to be read.\<close>

definition rest_of :: "chardev \<Rightarrow> byte list" where
  "rest_of d = (case msg_ptr d of None \<Rightarrow> [] | Some p \<Rightarrow> cstr (drop p (dev_msg d)))"

text \<open>The message has its zero at or behind the read position.\<close>

definition readable :: "chardev \<Rightarrow> bool" where
  "readable d \<longleftrightarrow> (case msg_ptr d of None \<Rightarrow> False | Some p \<Rightarrow> terminated (drop p (dev_msg d)))"

lemma drop_nth_cons: "terminated (drop p m) \<Longrightarrow> \<exists>b bs. drop p m = b # bs \<and> ld8 m p = Some b \<and> drop (p + 1) m = bs"
  by (cases "p < length m") (auto simp: ld8_def Cons_nth_drop_Suc [symmetric])

lemma read_loop_eq:
  assumes "user_access sncpy put cp" "terminated (drop p m)" "mapped um a (min l (length (cstr (drop p m))))"
  shows "read_loop put m p um a l n =
    (let s = take l (cstr (drop p m)) in Some (n + int (length s), p + length s, uwrite um a s))"
  using assms(2,3)
proof (induction l arbitrary: p um a n)
  case (Suc l)
  then obtain b bs where b: "drop p m = b # bs" "ld8 m p = Some b" "drop (p + 1) m = bs"
    using drop_nth_cons by blast
  show ?case
  proof (cases "b = 0")
    case False
    then have "um a \<noteq> None" "mapped um (a + 1) (min l (length (cstr bs)))"
      using Suc.prems(2) b by (auto simp: mapped_Suc)
    moreover from this have "put um a b = um(a \<mapsto> b)"
      using user_access.put_mapped [OF assms(1)] by simp
    moreover from calculation have "mapped (um(a \<mapsto> b)) (a + 1) (min l (length (cstr bs)))"
      by (simp add: mapped_def)
    moreover have "terminated (drop (p + 1) m)" using Suc.prems(1) b False by simp
    ultimately show ?thesis
      using False b Suc.IH [of "p + 1" "um(a \<mapsto> b)" "a + 1" "n + 1"]
      by (simp add: Let_def del: fun_upd_apply)
  qed (simp add: b)
qed simp

lemma cstr_drop: "k \<le> length (cstr xs) \<Longrightarrow> cstr (drop k xs) = drop k (cstr xs)"
proof (induction xs arbitrary: k)
  case (Cons x xs)
  then show ?case by (cases k) (auto split: if_splits)
qed simp

lemma terminated_drop: "k \<le> length (cstr xs) \<Longrightarrow> terminated xs \<Longrightarrow> terminated (drop k xs)"
proof (induction xs arbitrary: k)
  case (Cons x xs)
  then show ?case by (cases k) (auto split: if_splits)
qed simp

lemma device_read_eq:
  assumes "user_access sncpy put cp" "readable d" "mapped um a (min l (length (rest_of d)))"
  shows "\<exists>d'. device_read put d um a l =
      Some (int (length (take l (rest_of d))), d', uwrite um a (take l (rest_of d)))
    \<and> readable d' \<and> rest_of d' = drop l (rest_of d)
    \<and> Device_Open d' = Device_Open d \<and> dev_msg d' = dev_msg d"
proof -
  obtain p where p: "msg_ptr d = Some p" "terminated (drop p (dev_msg d))"
    using assms(2) by (auto simp: readable_def split: option.splits)
  let ?r = "rest_of d"
  have r: "?r = cstr (drop p (dev_msg d))" using p by (simp add: rest_of_def)
  obtain b bs where b: "drop p (dev_msg d) = b # bs" "ld8 (dev_msg d) p = Some b"
    using drop_nth_cons [OF p(2)] by blast
  show ?thesis
  proof (cases "b = 0")
    case True
    then show ?thesis using p b assms(2) r by (auto simp: device_read_def)
  next
    case False
    let ?k = "length (take l ?r)"
    let ?d' = "d\<lparr>msg_ptr := Some (p + ?k)\<rparr>"
    have k: "?k \<le> length (cstr (drop p (dev_msg d)))" by (simp add: r)
    have "device_read put d um a l = Some (int ?k, ?d', uwrite um a (take l ?r))"
      using False p b read_loop_eq [OF assms(1) p(2), of um a l 0] assms(3) r
      by (simp add: device_read_def Let_def)
    moreover have "readable ?d'"
      using terminated_drop [OF k p(2)] by (simp add: readable_def drop_drop add.commute)
    moreover have "rest_of ?d' = drop l ?r"
      using cstr_drop [OF k] r
      by (simp add: rest_of_def drop_drop add.commute) (simp add: min_def)
    ultimately show ?thesis by (intro exI [of _ ?d']) simp
  qed
qed

section \<open>Writing and the requests\<close>

lemma device_write_eq:
  assumes "user_access sncpy put cp" "ustr um a s" "length s < BUF_LEN" "length (dev_msg d) = BUF_LEN"
  shows "\<exists>d'. device_write sncpy d um a l = (int (length s), d') \<and> readable d' \<and> rest_of d' = s
    \<and> msg_ptr d' = Some 0 \<and> Device_Open d' = Device_Open d \<and> length (dev_msg d') = BUF_LEN"
proof -
  obtain i w where w: "sncpy um a BUF_LEN = (i, w)" by fastforce
  from user_access.string_arrives [OF assms(1-3) w] assms(4) show ?thesis
    by (simp add: device_write_def w readable_def rest_of_def)
qed

lemma set_msg_eq:
  assumes "user_access sncpy put cp" "ustr um a s" "length s < BUF_LEN" "length (dev_msg d) = BUF_LEN"
  shows "\<exists>d'. device_ioctl sncpy put d um IOCTL_SET_MSG a = Some (0, d', um) \<and> readable d'
    \<and> rest_of d' = s \<and> msg_ptr d' = Some 0 \<and> Device_Open d' = Device_Open d
    \<and> length (dev_msg d') = BUF_LEN"
proof -
  obtain i w where w: "sncpy um a BUF_LEN = (i, w)" by fastforce
  note a = user_access.string_arrives [OF assms(1-3) w]
  let ?d = "d\<lparr>dev_msg := w @ drop (length w) (dev_msg d)\<rparr>"
  have "length (dev_msg ?d) = BUF_LEN" using a(4) assms(4) by simp
  from device_write_eq [OF assms(1-3) this, of "nat i"] show ?thesis
    by (auto simp: device_ioctl_def ioctl_numbers w)
qed

lemma get_msg_eq:
  assumes "user_access sncpy put cp" "readable d" "length (rest_of d) < 100"
    and "mapped um a (length (rest_of d) + 1)"
  shows "\<exists>d'. device_ioctl sncpy put d um IOCTL_GET_MSG a = Some (0, d', uwrite um a (rest_of d @ [0]))
    \<and> readable d' \<and> rest_of d' = [] \<and> Device_Open d' = Device_Open d \<and> dev_msg d' = dev_msg d"
proof -
  let ?r = "rest_of d"
  have "mapped um a (min 99 (length ?r))" using assms(4) by (rule mapped_mono) simp
  from device_read_eq [OF assms(1,2) this] assms(3) obtain d' where d':
    "device_read put d um a 99 = Some (int (length ?r), d', uwrite um a ?r)" "readable d'"
    "rest_of d' = []" "Device_Open d' = Device_Open d" "dev_msg d' = dev_msg d" by auto
  have "mapped (uwrite um a ?r) a (length ?r + 1)" using assms(4) by simp
  then have "uwrite um a ?r (a + length ?r) \<noteq> None" by (simp add: mapped_def)
  then have "put (uwrite um a ?r) (a + length ?r) 0 = (uwrite um a ?r)(a + length ?r \<mapsto> 0)"
    by (rule user_access.put_mapped [OF assms(1)])
  then have "put (uwrite um a ?r) (nat (int a + int (length ?r))) 0 = uwrite um a (?r @ [0])"
    by (simp add: uwrite_append flip: of_nat_add)
  with d' show ?thesis by (simp add: device_ioctl_def ioctl_numbers)
qed

lemma nth_byte_eq:
  "device_ioctl sncpy put d um IOCTL_GET_NTH_BYTE i =
     (if i < length (dev_msg d) then Some (sint (dev_msg d ! i), d, um) else None)"
  by (simp add: device_ioctl_def ioctl_numbers ld8_def)

text \<open>The loop of the user program prints an ASCII message byte by byte, then its zero.\<close>

lemma nth_byte_loop_eq:
  assumes "terminated (drop i (dev_msg d))" "\<forall>c \<in> set (cstr (drop i (dev_msg d))). \<not> sint c < 0"
    and "length (dev_msg d) - i < fuel"
  shows "nth_byte_loop sncpy put fuel d um i =
    Some (map Char (cstr (drop i (dev_msg d))) @ [Char 0, Char 10], True, d, um)"
  using assms
proof (induction sncpy put fuel d um i rule: nth_byte_loop.induct)
  case (2 sncpy put fuel d um i)
  obtain b bs where b: "drop i (dev_msg d) = b # bs" "ld8 (dev_msg d) i = Some b"
    "drop (i + 1) (dev_msg d) = bs"
    using drop_nth_cons [OF "2.prems"(1)] by blast
  then have i: "i < length (dev_msg d)" "dev_msg d ! i = b" by (simp_all add: ld8_Some_iff)
  have step: "device_ioctl sncpy put d um IOCTL_GET_NTH_BYTE i = Some (sint b, d, um)"
    using i by (simp add: nth_byte_eq)
  show ?case
  proof (cases "b = 0")
    case False
    then show ?thesis
      using "2.IH" [OF step refl refl refl] "2.prems" i b by (auto simp: step)
  qed (simp add: step b)
qed simp

section \<open>The device among several processes\<close>

text \<open>
  The device, user memory, and the processes that have it open. The kernel calls \<open>device_release\<close>
  once for every successful open. The writers of this relation hand over readable strings of
  fewer than 80 bytes; \<open>User\<close> is any change that the processes make to their memory.
\<close>

type_synonym dev_sys = "chardev \<times> umem \<times> nat list"

inductive dev_step :: "str_from_user \<Rightarrow> put_to_user \<Rightarrow> dev_sys \<Rightarrow> dev_sys \<Rightarrow> bool"
  for sncpy :: str_from_user and put :: put_to_user where
  Open: "device_open d = (r, d') \<Longrightarrow>
     dev_step sncpy put (d, um, hs) (d', um, if r = 0 then pid # hs else hs)"
| Release: "pid \<in> set hs \<Longrightarrow> device_release d = (r, d') \<Longrightarrow>
     dev_step sncpy put (d, um, hs) (d', um, remove1 pid hs)"
| Read: "pid \<in> set hs \<Longrightarrow> device_read put d um a l = Some (r, d', um') \<Longrightarrow>
     dev_step sncpy put (d, um, hs) (d', um', hs)"
| Write: "pid \<in> set hs \<Longrightarrow> ustr um a s \<Longrightarrow> length s < BUF_LEN \<Longrightarrow> device_write sncpy d um a l = (r, d') \<Longrightarrow>
     dev_step sncpy put (d, um, hs) (d', um, hs)"
| Set_Msg: "pid \<in> set hs \<Longrightarrow> ustr um a s \<Longrightarrow> length s < BUF_LEN \<Longrightarrow>
     device_ioctl sncpy put d um IOCTL_SET_MSG a = Some (r, d', um') \<Longrightarrow>
     dev_step sncpy put (d, um, hs) (d', um', hs)"
| Get_Msg: "pid \<in> set hs \<Longrightarrow> device_ioctl sncpy put d um IOCTL_GET_MSG a = Some (r, d', um') \<Longrightarrow>
     dev_step sncpy put (d, um, hs) (d', um', hs)"
| User: "dev_step sncpy put (d, um, hs) (d, um', hs)"

definition dev_inv :: "dev_sys \<Rightarrow> bool" where
  "dev_inv s = (case s of (d, um, hs) \<Rightarrow> Device_Open d = int (length hs) \<and> length hs \<le> 1
     \<and> length (dev_msg d) = BUF_LEN \<and> terminated (dev_msg d)
     \<and> (hs \<noteq> [] \<longrightarrow> readable d))"

lemma readable_terminated: "readable d \<Longrightarrow> terminated (dev_msg d)"
  by (auto simp: readable_def split: option.splits dest: in_set_dropD)

text \<open>The position moves the same way whether the user's buffer can be written or not.\<close>

lemma read_loop_total:
  "terminated (drop p m) \<Longrightarrow> \<exists>k um'. read_loop put m p um a l n = Some (n + int k, p + k, um')
     \<and> k \<le> length (cstr (drop p m)) \<and> k \<le> l"
proof (induction put m p um a l n rule: read_loop.induct)
  case (2 put m p um a l n)
  obtain b bs where b: "drop p m = b # bs" "ld8 m p = Some b" "drop (p + 1) m = bs"
    using drop_nth_cons [OF "2.prems"] by blast
  show ?case
  proof (cases "b = 0")
    case False
    then have "terminated (drop (p + 1) m)" using "2.prems" b by simp
    from "2.IH" [OF b(2) False this] obtain k um' where
      "read_loop put m (p + 1) (put um a b) (a + 1) l (n + 1) = Some (n + 1 + int k, p + 1 + k, um')"
      "k \<le> length (cstr bs)" "k \<le> l" using b by auto
    then show ?thesis using False b by (intro exI [of _ "Suc k"]) (auto simp: ac_simps)
  qed (auto simp: b)
qed auto

lemma device_read_total:
  assumes "readable d"
  shows "\<exists>k d' um'. device_read put d um a l = Some (int k, d', um') \<and> k \<le> l \<and> readable d'
    \<and> Device_Open d' = Device_Open d \<and> dev_msg d' = dev_msg d"
proof -
  obtain p where p: "msg_ptr d = Some p" "terminated (drop p (dev_msg d))"
    using assms by (auto simp: readable_def split: option.splits)
  obtain b bs where b: "drop p (dev_msg d) = b # bs" "ld8 (dev_msg d) p = Some b"
    using drop_nth_cons [OF p(2)] by blast
  obtain k um' where k: "read_loop put (dev_msg d) p um a l 0 = Some (int k, p + k, um')"
    "k \<le> length (cstr (drop p (dev_msg d)))" "k \<le> l"
    using read_loop_total [OF p(2), of put um a l 0] by auto
  have "readable (d\<lparr>msg_ptr := Some (p + k)\<rparr>)"
    using terminated_drop [OF k(2) p(2)] by (simp add: readable_def drop_drop add.commute)
  then show ?thesis
    using p b k assms by (cases "b = 0") (auto simp: device_read_def)
qed

lemma get_msg_total:
  assumes "readable d"
  shows "\<exists>d' um'. device_ioctl sncpy put d um IOCTL_GET_MSG a = Some (0, d', um') \<and> readable d'
    \<and> Device_Open d' = Device_Open d \<and> dev_msg d' = dev_msg d"
  using device_read_total [OF assms, of put um a 99] by (auto simp: device_ioctl_def ioctl_numbers)

lemma dev_step_inv:
  assumes "user_access sncpy put cp"
  shows "dev_step sncpy put s s' \<Longrightarrow> dev_inv s \<Longrightarrow> dev_inv s'"
proof (induction rule: dev_step.induct)
  case (Open d r d' um hs pid)
  then show ?case by (auto simp: device_open_def dev_inv_def readable_def split: if_splits)
next
  case (Release pid hs d r d' um)
  then have "hs = [pid]" by (cases hs) (auto simp: dev_inv_def)
  with Release show ?case by (auto simp: device_release_def dev_inv_def)
next
  case (Read pid hs d um a l r d' um')
  moreover have "readable d" using Read by (auto simp: dev_inv_def)
  ultimately show ?case using device_read_total [of d put um a l]
    by (auto simp: dev_inv_def)
next
  case (Write pid hs um a s d l r d')
  moreover have "length (dev_msg d) = BUF_LEN" using Write by (auto simp: dev_inv_def)
  ultimately show ?case using device_write_eq [OF assms, of um a s d l] readable_terminated [of d']
    by (auto simp: dev_inv_def)
next
  case (Set_Msg pid hs um a s d r d' um')
  moreover have "length (dev_msg d) = BUF_LEN" using Set_Msg by (auto simp: dev_inv_def)
  ultimately show ?case using set_msg_eq [OF assms, of um a s d] readable_terminated [of d']
    by (auto simp: dev_inv_def)
next
  case (Get_Msg pid hs d um a r d' um')
  moreover have "readable d" using Get_Msg by (auto simp: dev_inv_def)
  ultimately show ?case using get_msg_total [of d sncpy put um a] by (auto simp: dev_inv_def)
qed (simp add: dev_inv_def)

lemma dev_reachable_inv:
  assumes "user_access sncpy put cp" "(dev_step sncpy put)\<^sup>*\<^sup>* (dev_loaded, um0, []) s"
  shows "dev_inv s"
  using assms(2)
proof (induction rule: rtranclp_induct)
  case base
  then show ?case by (simp add: dev_inv_def dev_loaded_def)
qed (rule dev_step_inv [OF assms(1)])

section \<open>Properties\<close>



text \<open>
  C13. Round trip: after a SET request with a string of fewer than 80 bytes, a GET request puts
  exactly this string and its zero into the caller's buffer and nothing anywhere else, both
  return 0, and a second GET yields the empty string.
\<close>

theorem set_get_roundtrip:
  assumes "user_access sncpy put cp" "length (dev_msg d) = BUF_LEN"
    and "ustr um a s" "length s < BUF_LEN" "mapped um b (length s + 1)"
  shows "\<exists>d1 d2 d3. device_ioctl sncpy put d um IOCTL_SET_MSG a = Some (0, d1, um)
    \<and> device_ioctl sncpy put d1 um IOCTL_GET_MSG b = Some (0, d2, uwrite um b (s @ [0]))
    \<and> device_ioctl sncpy put d2 (uwrite um b (s @ [0])) IOCTL_GET_MSG b =
        Some (0, d3, uwrite (uwrite um b (s @ [0])) b [0])"
proof -
  obtain d1 where d1: "device_ioctl sncpy put d um IOCTL_SET_MSG a = Some (0, d1, um)"
    "readable d1" "rest_of d1 = s" using set_msg_eq [OF assms(1,3,4,2)] by blast
  moreover obtain d2 where
    d2: "device_ioctl sncpy put d1 um IOCTL_GET_MSG b = Some (0, d2, uwrite um b (s @ [0]))"
    "readable d2" "rest_of d2 = []"
    using get_msg_eq [OF assms(1) d1(2), of um b] d1(3) assms(4,5) by auto
  moreover have "mapped (uwrite um b (s @ [0])) b (length (rest_of d2) + 1)"
    using mapped_mono [OF mapped_uwrite [OF assms(5)], of 1] d2(3) by simp
  ultimately show ?thesis using get_msg_eq [OF assms(1) d2(2)] by fastforce
qed

text \<open>User memory with a string at address 10 and room at address 100.\<close>

definition example_umem :: "byte list \<Rightarrow> umem" where
  "example_umem s = uwrite (uwrite Map.empty 100 (replicate 100 1)) 10 (s @ [0])"

lemma mapped_uwrite_same: "mapped (uwrite um a bs) a (length bs)"
proof (induction bs arbitrary: um a)
  case (Cons b bs)
  then show ?case by (simp add: mapped_Suc uwrite_other)
qed (simp add: mapped_def)

lemma example_umem_ok: "0 \<notin> set s \<Longrightarrow> ustr (example_umem s) 10 s" "mapped (example_umem s) 100 100"
  using mapped_uwrite_same [of Map.empty 100 "replicate 100 1"]
  by (simp_all add: example_umem_def)

theorem set_get_roundtrip_witness:
  "\<exists>d1 d2 um'. device_ioctl copy_str put_byte dev_loaded (example_umem [104, 105]) IOCTL_SET_MSG 10
       = Some (0, d1, example_umem [104, 105])
     \<and> device_ioctl copy_str put_byte d1 (example_umem [104, 105]) IOCTL_GET_MSG 100
       = Some (0, d2, um') \<and> uread um' 100 3 = Some [104, 105, 0]"
proof -
  have "length (dev_msg dev_loaded) = BUF_LEN" by (simp add: dev_loaded_def)
  moreover have "mapped (example_umem [104, 105]) 100 (length [104, 105 :: byte] + 1)"
    using example_umem_ok(2) by (rule mapped_mono) simp
  ultimately obtain d1 d2 where
    "device_ioctl copy_str put_byte dev_loaded (example_umem [104, 105]) IOCTL_SET_MSG 10
       = Some (0, d1, example_umem [104, 105])"
    "device_ioctl copy_str put_byte d1 (example_umem [104, 105]) IOCTL_GET_MSG 100
       = Some (0, d2, uwrite (example_umem [104, 105]) 100 ([104, 105] @ [0]))"
    using set_get_roundtrip [OF bytewise.user_access_axioms _ example_umem_ok(1) [of "[104, 105]"],
        of dev_loaded 100] by auto
  moreover have "uread (uwrite (example_umem [104, 105]) 100 ([104, 105] @ [0])) 100 3 = Some [104, 105, 0]"
    using uread_uwrite [of "example_umem [104, 105]" 100 "[104, 105] @ [0]"] by (simp add: eval_nat_numeral)
  ultimately show ?thesis by blast
qed

text \<open>
  Reading in two pieces is reading at once: a read of \<open>k\<close> bytes followed by a read of \<open>l\<close>
  bytes behind them leaves the same user memory and the same rest as one read of \<open>k + l\<close>, and
  the counts add up.
\<close>

lemma reads_compose:
  assumes "user_access sncpy put cp" "readable d" "mapped um a (k + l)" "k \<le> length (rest_of d)"
  shows "\<exists>i d1 um1 j d2 um2 d3.
      device_read put d um a k = Some (i, d1, um1)
    \<and> device_read put d1 um1 (a + k) l = Some (j, d2, um2)
    \<and> device_read put d um a (k + l) = Some (i + j, d3, um2)
    \<and> rest_of d2 = rest_of d3 \<and> i = int k"
proof -
  let ?r = "rest_of d"
  have m: "mapped um a (min k (length ?r))" "mapped um a (min (k + l) (length ?r))"
    using mapped_mono [OF assms(3)] by simp_all
  obtain d1 where d1: "device_read put d um a k = Some (int k, d1, uwrite um a (take k ?r))"
    "readable d1" "rest_of d1 = drop k ?r"
    using device_read_eq [OF assms(1,2) m(1)] assms(4) by (auto simp: min_def)
  have "mapped um (a + k) l" using assms(3) by (auto simp: mapped_def add.assoc)
  then have "mapped (uwrite um a (take k ?r)) (a + k) (min l (length (rest_of d1)))"
    using mapped_mono [OF mapped_uwrite] by simp
  from device_read_eq [OF assms(1) d1(2) this] d1(3) obtain d2 where
    d2: "device_read put d1 (uwrite um a (take k ?r)) (a + k) l =
      Some (int (length (take l (drop k ?r))), d2,
        uwrite (uwrite um a (take k ?r)) (a + k) (take l (drop k ?r)))"
    "rest_of d2 = drop l (drop k ?r)" by auto
  moreover have "take (k + l) ?r = take k ?r @ take l (drop k ?r)" by (rule take_add)
  then have "uwrite (uwrite um a (take k ?r)) (a + k) (take l (drop k ?r)) = uwrite um a (take (k + l) ?r)"
    "int k + int (length (take l (drop k ?r))) = int (length (take (k + l) ?r))"
    using assms(4) uwrite_append [of um a "take k ?r" "take l (drop k ?r)"] by auto
  moreover obtain d3 where "device_read put d um a (k + l) =
      Some (int (length (take (k + l) ?r)), d3, uwrite um a (take (k + l) ?r))"
    "rest_of d3 = drop (k + l) ?r"
    using device_read_eq [OF assms(1,2) m(2)] by auto
  ultimately show ?thesis using d1 by (auto simp: ac_simps)
qed

lemma reads_compose_witness:
  "\<exists>d1 um1 j d2 um2. device_read put_byte \<lparr>Device_Open = 1, dev_msg = [104, 105, 33, 0], msg_ptr = Some 0\<rparr>
         (example_umem []) 100 2 = Some (2, d1, um1)
      \<and> device_read put_byte d1 um1 102 5 = Some (j, d2, um2)"
  using reads_compose [OF bytewise.user_access_axioms, of
      "\<lparr>Device_Open = 1, dev_msg = [104, 105, 33, 0], msg_ptr = Some 0\<rparr>" "example_umem []" 100 2 5]
    mapped_mono [OF example_umem_ok(2), of 7 "[]"]
  by (fastforce simp: readable_def rest_of_def)

text \<open>
  C16. A string of 80 bytes or more makes the message lose its terminator: a write of such a
  string returns 80, and then a read of more than 80 bytes and a GET request leave the buffer,
  as does the request for a byte at index 80 or above at any time.
\<close>

theorem overlong_message_overruns:
  assumes "user_access sncpy put cp" "uread um a BUF_LEN = Some s" "0 \<notin> set s"
    and "length (dev_msg d) = BUF_LEN"
  shows "\<exists>d'. device_write sncpy d um a l = (80, d')
    \<and> (\<forall>b k. 80 < k \<longrightarrow> device_read put d' um b k = None)
    \<and> (\<forall>b. device_ioctl sncpy put d' um IOCTL_GET_MSG b = None)
    \<and> (\<forall>i. 80 \<le> i \<longrightarrow> device_ioctl sncpy put d um IOCTL_GET_NTH_BYTE i = None)"
proof -
  have len: "length s = BUF_LEN" by (rule uread_length [OF assms(2)])
  have run: "read_loop put m p um b k n = None" if "0 \<notin> set (drop p m)" "length m - p < k" for m p um b k n
    using that
  proof (induction put m p um b k n rule: read_loop.induct)
    case (2 put m p um b k n)
    show ?case
    proof (cases "p < length m")
      case True
      then have "m ! p \<noteq> 0" "0 \<notin> set (drop (p + 1) m)"
        using "2.prems"(1) by (simp_all add: Cons_nth_drop_Suc [symmetric])
      then show ?thesis using "2.IH" [of "m ! p"] "2.prems"(2) True by (simp add: ld8_def)
    qed (simp add: ld8_def)
  qed simp
  let ?d = "d\<lparr>dev_msg := s, msg_ptr := Some 0\<rparr>"
  have "sncpy um a BUF_LEN = (80, s)"
    using user_access.long_string [OF assms(1-3)] by simp
  then have "device_write sncpy d um a l = (80, ?d)"
    using len assms(4) by (simp add: device_write_def)
  moreover have "s ! 0 \<noteq> 0" using assms(3) len by (metis nth_mem zero_less_numeral)
  then have "\<forall>b k. 80 < k \<longrightarrow> device_read put ?d um b k = None"
    using run [of 0 s] assms(3) len by (simp add: device_read_def ld8_def)
  ultimately show ?thesis
    using assms(4) by (intro exI [of _ ?d]) (simp add: device_ioctl_def ioctl_numbers ld8_def)
qed

theorem overlong_message_overruns_witness:
  "device_ioctl copy_str put_byte dev_loaded (example_umem []) IOCTL_GET_NTH_BYTE 80 = None"
proof -
  have "uread (uwrite Map.empty 5 (replicate 80 65)) 5 80 = Some (replicate 80 65)"
    using uread_uwrite [of Map.empty 5 "replicate 80 65"] by simp
  moreover have "length (dev_msg dev_loaded) = BUF_LEN" by (simp add: dev_loaded_def)
  ultimately show ?thesis
    using overlong_message_overruns [OF bytewise.user_access_axioms, of
        "uwrite Map.empty 5 (replicate 80 65)" 5 "replicate 80 65" dev_loaded]
    by (simp add: nth_byte_eq)
qed

text \<open>
  C15. The user program, run while nobody else has the device and the message is an ASCII
  string: it prints the message byte by byte with its zero and a line feed, then the message as
  a string, sets the greeting, reports it, and leaves the device closed with the greeting in it.
\<close>

theorem ioctl_main_prints:
  assumes "user_access sncpy put cp" "Device_Open d = 0" "length (dev_msg d) = BUF_LEN"
    and "terminated (dev_msg d)" "\<forall>c \<in> set (cstr (dev_msg d)). \<not> sint c < 0"
    and "ustr um lit hello" "mapped um buf 100" "buf + 100 \<le> lit \<or> lit + 12 < buf"
  shows "\<exists>d' um'. ioctl_main sncpy put lit buf d um =
      Some ([Nth_header] @ map Char (cstr (dev_msg d)) @ [Char 0, Char 10]
            @ [Get_message (cstr (dev_msg d)), Set_message hello], True, d', um')
    \<and> Device_Open d' = 0 \<and> cstr (dev_msg d') = hello"
proof -
  let ?s = "cstr (dev_msg d)"
  let ?d = "d\<lparr>Device_Open := 1, msg_ptr := Some 0\<rparr>"
  let ?um = "uwrite um buf (?s @ [0])"
  have s: "length ?s < 80" using length_cstr_less [OF assms(4)] assms(3) by simp
  have rd: "readable ?d" "rest_of ?d = ?s" using assms(4) by (simp_all add: readable_def rest_of_def)
  have "mapped um buf (length ?s + 1)" using assms(7) s by (auto elim: mapped_mono)
  then obtain d2 where d2: "device_ioctl sncpy put ?d um IOCTL_GET_MSG buf = Some (0, d2, ?um)"
    "Device_Open d2 = 1" "dev_msg d2 = dev_msg d"
    using get_msg_eq [OF assms(1) rd(1), of um buf] rd(2) s by auto
  obtain bs where bs: "uread ?um buf 100 = Some bs" "cstr bs = ?s" "terminated bs"
    using uread_string [of ?um buf 100 ?s] assms(7) s by auto
  have "length hello = 12" by (simp add: hello_def)
  then have lit: "ustr ?um lit hello"
    using assms(8) s by (intro ustr_uwrite_other [OF assms(6)]) auto
  obtain d3 where d3: "device_ioctl sncpy put d2 ?um IOCTL_SET_MSG lit = Some (0, d3, ?um)"
    "Device_Open d3 = 1" "rest_of d3 = hello" "msg_ptr d3 = Some 0"
    using set_msg_eq [OF assms(1) lit, of d2] d2(2,3) assms(3) by (auto simp: hello_def)
  have nth: "nth_byte_loop sncpy put 81 ?d um 0 = Some (map Char ?s @ [Char 0, Char 10], True, ?d, um)"
    using nth_byte_loop_eq [of 0 ?d 81 sncpy put um] assms(3-5) by simp
  have "device_open d = (0, ?d)" using assms(2) by (simp add: device_open_def)
  then show ?thesis
    using d2 d3 bs nth
    by (simp add: ioctl_main_def ioctl_get_nth_byte_def ioctl_get_msg_def ioctl_set_msg_def
        after_def strlen_eq device_release_def rest_of_def)
qed

theorem ioctl_main_prints_witness:
  "\<exists>d' um'. ioctl_main copy_str put_byte 10 100 dev_loaded (example_umem hello) =
     Some ([Nth_header, Char 0, Char 10, Get_message [], Set_message hello], True, d', um')"
  using ioctl_main_prints [OF bytewise.user_access_axioms, of dev_loaded "example_umem hello" 10 100]
    example_umem_ok [of hello]
  by (auto simp: dev_loaded_def hello_def)

end
