(* ===== verification/ProcFs.thy ===== *)
theory ProcFs
  imports UserAccess
begin

text \<open>
  The proc file of core/procdev/procfs.c. Its state is the 10 byte message and the two static
  flags: \<open>f_read\<close> makes every second read report the end of the file, \<open>f_write\<close> is set by the first
  write and never cleared. The module calls \<^verbatim>\<open>strlen\<close> on the user's buffer.
\<close>

section \<open>The code\<close>

record procfile =
  proc_msg :: "byte list"
  f_read :: int
  f_write :: int

abbreviation (input) PROC_MSG_LEN :: nat where "PROC_MSG_LEN \<equiv> 10"

definition proc_loaded :: procfile where
  "proc_loaded = \<lparr>proc_msg = replicate PROC_MSG_LEN 0, f_read = 0, f_write = 0\<rparr>"

definition procfile_read :: "block_to_user \<Rightarrow> procfile \<Rightarrow> umem \<Rightarrow> nat \<Rightarrow> nat
    \<Rightarrow> (int \<times> procfile \<times> umem) option" where
  "procfile_read cp s um buffer buffer_length =
     (let um = cp um buffer (proc_msg s)
      in if f_read s = 1 then Some (0, s\<lparr>f_read := 0\<rparr>, um)
         else do {
           n \<leftarrow> ustrlen um buffer;
           Some (int n, s\<lparr>f_read := 1\<rparr>, um) })"

definition procfile_write :: "str_from_user \<Rightarrow> procfile \<Rightarrow> umem \<Rightarrow> nat \<Rightarrow> nat
    \<Rightarrow> (int \<times> procfile) option" where
  "procfile_write sncpy s um buffer buffer_length =
     (if f_write s = 1 then do { n \<leftarrow> ustrlen um buffer; Some (int n, s) }
      else do {
        let (count_read, w) = sncpy um buffer (PROC_MSG_LEN - 1);
        let s = s\<lparr>proc_msg := w @ drop (length w) (proc_msg s)\<rparr>;
        _ \<leftarrow> strlen (proc_msg s);
        Some (count_read, s\<lparr>f_write := 1\<rparr>) })"

text \<open>Loading: \<open>created\<close> tells whether \<open>proc_create\<close> returned an entry.\<close>

definition m_proc_init :: "bool \<Rightarrow> int \<times> proc_call list" where
  "m_proc_init created =
     (if \<not> created then (- ENOMEM, [Proc_Create, Remove_Proc_Entry]) else (0, [Proc_Create]))"

definition m_proc_cleanup :: "proc_call list" where
  "m_proc_cleanup = [Remove_Proc_Entry]"

section \<open>Sessions\<close>

text \<open>
  A sequence of calls by user processes: a read into a buffer at an address, or a write of a
  string that the process has put at an address. The results are the returned values.
\<close>

datatype proc_op = Read nat nat | Write nat "byte list"

fun proc_run :: "str_from_user \<Rightarrow> block_to_user \<Rightarrow> proc_op list \<Rightarrow> procfile \<Rightarrow> umem
    \<Rightarrow> (int list \<times> procfile \<times> umem) option" where
  "proc_run sncpy cp [] s um = Some ([], s, um)"
| "proc_run sncpy cp (Read a l # ops) s um = do {
     (r, s, um) \<leftarrow> procfile_read cp s um a l;
     (rs, s, um) \<leftarrow> proc_run sncpy cp ops s um;
     Some (r # rs, s, um) }"
| "proc_run sncpy cp (Write a str # ops) s um = do {
     let um = uwrite um a (str @ [0]);
     (r, s) \<leftarrow> procfile_write sncpy s um a (length str);
     (rs, s, um) \<leftarrow> proc_run sncpy cp ops s um;
     Some (r # rs, s, um) }"

text \<open>What the calls return, seen from outside: an abstract file that takes one write.\<close>

record proc_spec =
  content :: "byte list"
  at_end :: bool
  written :: bool

fun spec_run :: "proc_op list \<Rightarrow> proc_spec \<Rightarrow> int list \<times> proc_spec" where
  "spec_run [] t = ([], t)"
| "spec_run (Read a l # ops) t =
     (let r = (if at_end t then 0 else int (length (content t)));
          (rs, t) = spec_run ops (t\<lparr>at_end := \<not> at_end t\<rparr>) in (r # rs, t))"
| "spec_run (Write a str # ops) t =
     (if written t then let (rs, t) = spec_run ops t in (int (length str) # rs, t)
      else let (rs, t) = spec_run ops (t\<lparr>content := take 9 str, written := True\<rparr>)
           in (int (min (length str) 9) # rs, t))"

definition proc_abs :: "procfile \<Rightarrow> proc_spec" where
  "proc_abs s = \<lparr>content = cstr (proc_msg s), at_end = (f_read s = 1), written = (f_write s = 1)\<rparr>"

definition proc_ok :: "procfile \<Rightarrow> bool" where
  "proc_ok s \<longleftrightarrow> length (proc_msg s) = PROC_MSG_LEN \<and> proc_msg s ! 9 = 0"

text \<open>Read buffers have room for the ten bytes that every read copies; strings hold no zero.\<close>

fun op_ok :: "umem \<Rightarrow> proc_op \<Rightarrow> bool" where
  "op_ok um (Read a l) = mapped um a PROC_MSG_LEN"
| "op_ok um (Write a str) = (0 \<notin> set str)"

lemma op_ok_uwrite: "op_ok um x \<Longrightarrow> op_ok (uwrite um a bs) x"
  by (cases x) simp_all

lemma proc_ok_terminated: "proc_ok s \<Longrightarrow> terminated (proc_msg s)"
  using nth_mem [of 9 "proc_msg s"] by (simp add: proc_ok_def)

lemma read_refines:
  assumes "user_access sncpy put cp" "proc_ok s" "mapped um a PROC_MSG_LEN"
  shows "\<exists>s'. procfile_read cp s um a l =
      Some (if f_read s = 1 then 0 else int (length (cstr (proc_msg s))), s', uwrite um a (proc_msg s))
    \<and> proc_ok s' \<and> proc_abs s' = (proc_abs s)\<lparr>at_end := \<not> at_end (proc_abs s)\<rparr>"
proof -
  have cp: "cp um a (proc_msg s) = uwrite um a (proc_msg s)"
    using user_access.copy_mapped [OF assms(1)] assms(2,3) by (simp add: proc_ok_def)
  have "ustr (uwrite um a (proc_msg s)) a (cstr (proc_msg s))"
    using uread_uwrite [of um a "proc_msg s"] proc_ok_terminated [OF assms(2)]
    by (rule uread_ustr)
  then have "ustrlen (uwrite um a (proc_msg s)) a = Some (length (cstr (proc_msg s)))"
    by (rule ustrlen_ustr)
  with cp assms(2) show ?thesis
    by (auto simp: procfile_read_def proc_abs_def proc_ok_def)
qed

lemma write_refines:
  assumes "user_access sncpy put cp" "proc_ok s" "ustr um a str"
  shows "\<exists>s'. procfile_write sncpy s um a l =
      Some (int (if f_write s = 1 then length str else min (length str) 9), s') \<and> proc_ok s'
    \<and> proc_abs s' = (if f_write s = 1 then proc_abs s
                     else (proc_abs s)\<lparr>content := take 9 str, written := True\<rparr>)"
proof (cases "f_write s = 1")
  case True
  then show ?thesis using assms(2) ustrlen_ustr [OF assms(3)] by (simp add: procfile_write_def)
next
  case False
  obtain i w where w: "sncpy um a 9 = (i, w)" by fastforce
  note cut = user_access.string_cut [OF assms(1,3) w]
  have zero: "0 \<notin> set str" using assms(3) by (simp add: ustr_def)
  let ?m = "w @ drop (length w) (proc_msg s)"
  have len: "length ?m = 10" "?m ! 9 = 0"
    using cut assms(2) by (auto simp: proc_ok_def nth_append)
  have "cstr ?m = take 9 str"
  proof (cases "length str < 9")
    case False
    have "drop 9 (proc_msg s) = [0]"
      using assms(2) Cons_nth_drop_Suc [of 9 "proc_msg s"] by (simp add: proc_ok_def)
    then have "?m = take 9 str @ [0]" using False cut by simp
    moreover have "0 \<notin> set (take 9 str)" using zero by (auto dest: in_set_takeD)
    ultimately show ?thesis by (simp only:) (simp add: cstr_append)
  qed (use cut zero in \<open>auto simp: cstr_append\<close>)
  moreover have "terminated ?m" using len nth_mem [of 9 ?m] by simp
  ultimately show ?thesis
    using False cut w len
    by (auto simp: procfile_write_def strlen_eq proc_abs_def proc_ok_def min_def Let_def)
qed

text \<open>The module simulates the abstract file on every sequence of calls.\<close>

lemma proc_run_refines:
  assumes "user_access sncpy put cp"
  shows "proc_ok s \<Longrightarrow> \<forall>x \<in> set ops. op_ok um x \<Longrightarrow>
    \<exists>s' um'. proc_run sncpy cp ops s um = Some (fst (spec_run ops (proc_abs s)), s', um')
      \<and> proc_ok s' \<and> proc_abs s' = snd (spec_run ops (proc_abs s))"
proof (induction ops arbitrary: s um)
  case (Cons x ops)
  show ?case
  proof (cases x)
    case (Read a l)
    with Cons.prems obtain s' where s':
      "procfile_read cp s um a l = Some (if f_read s = 1 then 0 else int (length (cstr (proc_msg s))),
         s', uwrite um a (proc_msg s))" "proc_ok s'"
      "proc_abs s' = (proc_abs s)\<lparr>at_end := \<not> at_end (proc_abs s)\<rparr>"
      using read_refines [OF assms, of s um a l] by auto
    have "\<forall>x \<in> set ops. op_ok (uwrite um a (proc_msg s)) x"
      using Cons.prems(2) by (simp add: op_ok_uwrite)
    from Cons.IH [OF s'(2) this] s' Read show ?thesis
      by (auto simp: proc_abs_def split: prod.splits)
  next
    case (Write a str)
    let ?um = "uwrite um a (str @ [0])"
    have "ustr ?um a str" using Cons.prems Write by simp
    then obtain s' where s': "procfile_write sncpy s ?um a (length str) =
        Some (int (if f_write s = 1 then length str else min (length str) 9), s')" "proc_ok s'"
      "proc_abs s' = (if f_write s = 1 then proc_abs s
                      else (proc_abs s)\<lparr>content := take 9 str, written := True\<rparr>)"
      using write_refines [OF assms Cons.prems(1), of ?um a str "length str"] by blast
    have "\<forall>x \<in> set ops. op_ok ?um x" using Cons.prems(2) by (simp add: op_ok_uwrite)
    from Cons.IH [OF s'(2) this] s' Write show ?thesis
      by (auto simp: proc_abs_def Let_def split: prod.splits)
  qed
qed auto

section \<open>Properties\<close>

text \<open>
  C14. Refinement: on every sequence of reads and writes by user processes the proc file behaves
  as an abstract file that keeps the first nine bytes of the first write ever made to it,
  answers later writes with their length without storing anything, and answers reads
  alternately with the length of its contents and with the end of the file. No call leaves the
  message buffer.
\<close>

theorem procfile_refines:
  assumes "user_access sncpy put cp" "\<forall>x \<in> set ops. op_ok um x"
  shows "\<exists>s um'. proc_run sncpy cp ops proc_loaded um =
      Some (fst (spec_run ops \<lparr>content = [], at_end = False, written = False\<rparr>), s, um')
    \<and> length (proc_msg s) = PROC_MSG_LEN \<and> terminated (proc_msg s)
    \<and> proc_abs s = snd (spec_run ops \<lparr>content = [], at_end = False, written = False\<rparr>)"
proof -
  have "proc_ok proc_loaded" by (simp add: proc_ok_def proc_loaded_def)
  moreover have "proc_abs proc_loaded = \<lparr>content = [], at_end = False, written = False\<rparr>"
    by (simp add: proc_abs_def proc_loaded_def)
  ultimately show ?thesis
    using proc_run_refines [OF assms(1) _ assms(2), of proc_loaded] proc_ok_terminated
    by (auto simp: proc_ok_def)
qed

theorem procfile_refines_witness:
  "\<exists>s um'. proc_run copy_str uwrite [Write 50 [104, 105], Read 0 4, Read 0 4, Write 50 [97], Read 0 4]
     proc_loaded (uwrite Map.empty 0 (replicate 10 1)) = Some ([2, 2, 0, 1, 2], s, um')"
proof -
  have "mapped (uwrite Map.empty 0 (replicate 10 1)) 0 10" by (auto simp: mapped_def eval_nat_numeral less_Suc_eq)
  then show ?thesis
    using procfile_refines [OF bytewise.user_access_axioms, of
        "[Write 50 [104, 105], Read 0 4, Read 0 4, Write 50 [97], Read 0 4]"
        "uwrite Map.empty 0 (replicate 10 1)"]
    by auto
qed

text \<open>
  Every read copies all ten bytes of the message, however few the caller asked for, and
  changes no other byte.
\<close>

lemma procfile_read_ignores_length:
  assumes "user_access sncpy put cp" "proc_ok s" "mapped um a PROC_MSG_LEN"
  shows "\<exists>r s' um'. procfile_read cp s um a l = Some (r, s', um')
    \<and> uread um' a 10 = Some (proc_msg s)
    \<and> (\<forall>b. b < a \<or> a + 10 \<le> b \<longrightarrow> um' b = um b)"
  using read_refines [OF assms, of l] uread_uwrite [of um a "proc_msg s"] assms(2)
    uwrite_other [of _ a "proc_msg s" um]
  by (auto simp: proc_ok_def)

lemma procfile_read_ignores_length_witness:
  "\<exists>r s' um'. procfile_read uwrite proc_loaded (uwrite Map.empty 0 (replicate 10 1)) 0 1 = Some (r, s', um')
     \<and> uread um' 0 10 = Some (replicate 10 0)"
proof -
  have "mapped (uwrite Map.empty 0 (replicate 10 1)) 0 10" by (auto simp: mapped_def eval_nat_numeral less_Suc_eq)
  moreover have "proc_ok proc_loaded" by (simp add: proc_ok_def proc_loaded_def)
  ultimately show ?thesis
    using procfile_read_ignores_length [OF bytewise.user_access_axioms, of proc_loaded
        "uwrite Map.empty 0 (replicate 10 1)" 0 1]
    by (auto simp: proc_loaded_def)
qed

end
