(* ===== verification/Shadow.thy ===== *)
theory Shadow
  imports UserAccess
begin

text \<open>
  core/shadow: the module that makes a process root when its number is written to
  /proc/mshadow (kernel\_shadow.c), and the program that asks for it and prints the password file
  (user\_shadow.c). Tasks and their credentials are the kernel's: \<open>task_cred\<close> gives for a process
  number the credential that its task points to, \<^const>\<open>None\<close> where \<open>pid_task\<close> returns null.
  Credentials are shared between tasks, so they are a map from addresses.
\<close>

section \<open>The module\<close>

record shadow =
  shadow_msg :: "byte list"
  m_pid_task :: int

record cred =
  uid :: u32
  euid :: u32
  fsuid :: u32

abbreviation (input) SHADOW_MSG_LEN :: nat where "SHADOW_MSG_LEN \<equiv> 5"

definition shadow_loaded :: shadow where
  "shadow_loaded = \<lparr>shadow_msg = replicate SHADOW_MSG_LEN 0, m_pid_task = 0\<rparr>"

definition shadow_write :: "str_from_user \<Rightarrow> (int \<Rightarrow> nat option) \<Rightarrow> (nat \<Rightarrow> cred) \<Rightarrow> shadow \<Rightarrow> umem
    \<Rightarrow> nat \<Rightarrow> nat \<Rightarrow> (int \<times> shadow \<times> (nat \<Rightarrow> cred)) option" where
  "shadow_write sncpy task_cred creds s um buffer buffer_length = do {
     let (count_read, w) = sncpy um buffer SHADOW_MSG_LEN;
     let s = s\<lparr>shadow_msg := w @ drop (length w) (shadow_msg s)\<rparr>;
     _ \<leftarrow> strlen (shadow_msg s);
     let s = (case scan_int (cstr (shadow_msg s)) of
                Some n \<Rightarrow> s\<lparr>m_pid_task := n\<rparr> | None \<Rightarrow> s);
     m_cred \<leftarrow> task_cred (m_pid_task s);
     let creds = creds(m_cred := (creds m_cred)\<lparr>euid := 0, fsuid := 0\<rparr>);
     n \<leftarrow> ustrlen um buffer;
     Some (int n, s, creds) }"

definition shadow_init :: "bool \<Rightarrow> int \<times> proc_call list" where
  "shadow_init created =
     (if \<not> created then (- ENOMEM, [Proc_Create, Remove_Proc_Entry]) else (0, [Proc_Create]))"

definition shadow_cleanup :: "proc_call list" where
  "shadow_cleanup = [Remove_Proc_Entry]"

section \<open>The program\<close>

text \<open>\<^verbatim>\<open>sprintf(buffer, "%d", pid)\<close> into the \<^verbatim>\<open>sizeof(int)\<close> bytes that were allocated.\<close>

definition sprint_pid :: "byte list \<Rightarrow> nat \<Rightarrow> byte list option" where
  "sprint_pid buffer pid = st_bytes buffer 0 (decimal pid @ [0])"

text \<open>
  The loop that copies the password file to the output: each \<^verbatim>\<open>read\<close> fills the start of the 64
  byte buffer, and \<^verbatim>\<open>printf("%s")\<close> prints what then stands in it up to a zero byte.
\<close>

function print_file :: "byte list \<Rightarrow> byte list \<Rightarrow> byte list option" where
  "print_file buffer file = (if file = [] then Some [] else do {
     let chunk = take 64 file;
     buffer \<leftarrow> st_bytes buffer 0 chunk;
     _ \<leftarrow> strlen buffer;
     out \<leftarrow> print_file buffer (drop 64 file);
     Some (cstr buffer @ out) })"
  by pat_completeness auto
termination by (relation "measure (\<lambda>(buffer, file). length file)") auto

declare print_file.simps [simp del]

text \<open>
  The program up to the end of its output: open the proc file, print the number into the
  allocated buffer, write four bytes of it. \<open>Inl\<close> is an exit with a failure code. The write goes
  to the module; the file is printed after the signal. The buffers hold what \<^verbatim>\<open>malloc\<close> left.
\<close>

definition user_shadow :: "str_from_user \<Rightarrow> (int \<Rightarrow> nat option) \<Rightarrow> (nat \<Rightarrow> cred) \<Rightarrow> shadow \<Rightarrow> umem \<Rightarrow> nat
    \<Rightarrow> int \<Rightarrow> nat \<Rightarrow> byte list \<Rightarrow> byte list \<Rightarrow> byte list
    \<Rightarrow> (unit + byte list \<times> shadow \<times> (nat \<Rightarrow> cred)) option" where
  "user_shadow sncpy task_cred creds s um addr fd_proc pid buffer buffer_shadow file =
     (if fd_proc < 0 then Some (Inl ())
      else do {
        buffer \<leftarrow> sprint_pid buffer pid;
        let um = uwrite um addr buffer;
        (ret_val, s, creds) \<leftarrow> shadow_write sncpy task_cred creds s um addr 4;
        if ret_val < 0 then Some (Inl ())
        else do {
          out \<leftarrow> print_file buffer_shadow file;
          Some (Inr (out, s, creds)) } })"

section \<open>Lemmas\<close>

lemma shadow_write_eq:
  assumes "user_access sncpy put cp" "length (shadow_msg s) = SHADOW_MSG_LEN" "ustr um a str"
  shows "shadow_write sncpy task_cred creds s um a l =
    (if length str < SHADOW_MSG_LEN then
       let n = (case scan_int str of Some n \<Rightarrow> n | None \<Rightarrow> m_pid_task s)
       in case task_cred n of None \<Rightarrow> None
          | Some c \<Rightarrow> Some (int (length str),
              s\<lparr>shadow_msg := snd (sncpy um a 5) @ drop (length (snd (sncpy um a 5))) (shadow_msg s),
                m_pid_task := n\<rparr>,
              creds(c := (creds c)\<lparr>euid := 0, fsuid := 0\<rparr>))
     else None)"
proof -
  obtain i w where w: "sncpy um a SHADOW_MSG_LEN = (i, w)" by fastforce
  note cut = user_access.string_cut [OF assms(1,3) w]
  have zero: "0 \<notin> set str" using assms(3) by (simp add: ustr_def)
  note len = ustrlen_ustr [OF assms(3)]
  show ?thesis
  proof (cases "length str < SHADOW_MSG_LEN")
    case True
    then show ?thesis using user_access.string_arrives [OF assms(1,3) True w] len
      by (auto simp: shadow_write_def w strlen_eq Let_def split: option.splits)
  next
    case False
    then have "\<not> terminated (w @ drop (length w) (shadow_msg s))"
      using cut zero assms(2) by (auto simp: min_def dest: in_set_takeD)
    with False show ?thesis by (simp add: shadow_write_def w strlen_eq)
  qed
qed

lemma sprint_pid_eq:
  "length buffer = 4 \<Longrightarrow> sprint_pid buffer pid =
     (if pid < 1000 then Some (decimal pid @ 0 # drop (length (decimal pid) + 1) buffer) else None)"
  using length_decimal [of 3 pid] by (simp add: sprint_pid_def st_bytes_def)

lemma print_file_overrun:
  "length buffer = 64 \<Longrightarrow> 0 \<notin> set file \<Longrightarrow> 64 \<le> length file \<Longrightarrow> print_file buffer file = None"
  by (subst print_file.simps) (auto simp: st_bytes_def strlen_eq Let_def dest: in_set_takeD)

lemma print_file_short:
  assumes "length buffer = 64" "0 \<notin> set file" "length file < 64" "terminated (drop (length file) buffer)"
  shows "print_file buffer file =
    Some (if file = [] then [] else file @ cstr (drop (length file) buffer))"
proof (cases "file = []")
  case False
  have "st_bytes buffer 0 file = Some (file @ drop (length file) buffer)"
    using assms(1,3) by (simp add: st_bytes_def)
  moreover have "print_file b [] = Some []" for b by (subst print_file.simps) simp
  ultimately show ?thesis
    using False assms by (subst print_file.simps) (simp add: strlen_eq cstr_append)
qed (subst print_file.simps, simp)

section \<open>Properties\<close>

text \<open>
  C17. Whoever may open the proc file makes any process root: for a number below 1000 whose task
  exists, the program's write sets the effective and the file system user of the credential to
  0, which makes every other process that shares the credential root as well; the real user
  and all other credentials stay, and a password file shorter than the buffer is printed whole.
\<close>

theorem shadow_grants_root:
  assumes "user_access sncpy put cp" "length (shadow_msg s) = SHADOW_MSG_LEN"
    and "pid < 1000" "task_cred (int pid) = Some c" "0 \<le> fd" "length buffer = 4"
    and "length file < 64" "0 \<notin> set file"
  shows "\<exists>out s' creds'. user_shadow sncpy task_cred creds s um a fd pid buffer (replicate 64 0) file =
      Some (Inr (out, s', creds'))
    \<and> out = file
    \<and> (\<forall>q. task_cred q = Some c \<longrightarrow> euid (creds' c) = 0 \<and> fsuid (creds' c) = 0)
    \<and> uid (creds' c) = uid (creds c)
    \<and> (\<forall>d. d \<noteq> c \<longrightarrow> creds' d = creds d)
    \<and> m_pid_task s' = int pid \<and> length (shadow_msg s') = SHADOW_MSG_LEN"
proof -
  let ?b = "decimal pid @ 0 # drop (length (decimal pid) + 1) buffer"
  let ?um = "uwrite um a ?b"
  have d: "length (decimal pid) \<le> 3" using length_decimal [of 3 pid] assms(3) by simp
  have "ustr ?um a (decimal pid)"
    using uread_ustr [OF uread_uwrite [of um a ?b]] decimal_nonzero [of pid]
    by (simp add: cstr_append)
  note eq = shadow_write_eq [OF assms(1,2) this, of task_cred creds 4]
  have "length (snd (sncpy ?um a 5)) \<le> 5" by (rule user_access.never_more [OF assms(1)])
  moreover have "print_file (replicate 64 0) file = Some file"
    using print_file_short [of "replicate 64 0" "file"] assms(7,8) by auto
  moreover have "\<not> fd < 0" using assms(5) by simp
  ultimately show ?thesis
    using eq assms(2-4,6) d scan_decimal [of "[]" pid]
    by (simp add: user_shadow_def sprint_pid_eq Let_def)
qed

theorem shadow_grants_root_witness:
  "\<exists>s' creds'. user_shadow copy_str (\<lambda>n. if n = 42 \<or> n = 7 then Some 3 else None)
      (\<lambda>_. \<lparr>uid = 1000, euid = 1000, fsuid = 1000\<rparr>) shadow_loaded Map.empty 80 5 42 [9, 9, 9, 9]
      (replicate 64 0) [114, 58] = Some (Inr ([114, 58], s', creds')) \<and> euid (creds' 3) = 0"
  using shadow_grants_root [OF bytewise.user_access_axioms, of shadow_loaded 42
      "\<lambda>n. if n = 42 \<or> n = 7 then Some 3 else None" 3 5 "[9, 9, 9, 9]" "[114, 58]"
      "\<lambda>_. \<lparr>uid = 1000, euid = 1000, fsuid = 1000\<rparr>" Map.empty 80]
  by (fastforce simp: shadow_loaded_def)

text \<open>
  The two programs leave their buffers: the user program's number overflows its four bytes
  from 1000 on, the module reads past its five bytes when it is given a string of five or
  more, and follows a null pointer when no task has the number; a password file of 64 or more
  bytes is printed from an unterminated buffer.
\<close>

lemma shadow_overruns:
  assumes "user_access sncpy put cp" "length (shadow_msg s) = SHADOW_MSG_LEN" "ustr um a str"
    and "length buffer = 4" "length buffer_shadow = 64" "0 \<notin> set file"
  shows "(sprint_pid buffer pid = None \<longleftrightarrow> 1000 \<le> pid)
    \<and> (shadow_write sncpy task_cred creds s um a l = None \<longleftrightarrow>
         5 \<le> length str \<or> task_cred (case scan_int str of Some n \<Rightarrow> n | None \<Rightarrow> m_pid_task s) = None)
    \<and> (64 \<le> length file \<longrightarrow> print_file buffer_shadow file = None)"
  using shadow_write_eq [OF assms(1-3), of task_cred creds l] sprint_pid_eq [OF assms(4), of pid]
    print_file_overrun [OF assms(5,6)]
  by (auto simp: Let_def split: option.splits)

lemma shadow_overruns_witness:
  "sprint_pid [0, 0, 0, 0] 1000 = None \<and>
   shadow_write copy_str (\<lambda>_. Some 3)
     (\<lambda>_. \<lparr>uid = 9, euid = 9, fsuid = 9\<rparr>) shadow_loaded (uwrite Map.empty 0 [49, 48, 48, 48, 48, 0]) 0 5 = None"
proof -
  have "ustr (uwrite Map.empty 0 ([49, 48, 48, 48, 48] @ [0])) 0 [49, 48, 48, 48, 48]"
    by (rule ustr_uwrite) simp
  then show ?thesis
    using shadow_overruns [OF bytewise.user_access_axioms, of shadow_loaded
        "uwrite Map.empty 0 [49, 48, 48, 48, 48, 0]" 0 "[49, 48, 48, 48, 48]" "[0, 0, 0, 0]"
        "replicate 64 0" "[]" 1000 "\<lambda>_. Some 3"
        "\<lambda>_. \<lparr>uid = 9, euid = 9, fsuid = 9\<rparr>" 5]
    by (simp add: shadow_loaded_def)
qed

end
