(* ===== verification/Inet.thy ===== *)
theory Inet
  imports Checksum Netfilter
begin

text \<open>
  Dotted addresses, and the packet of core/netfilter/ping. \<open>ntoa\<close> of netlink\_recv.c prints an
  address into its static buffer, \<open>inet_addr\<close> of kernel\_ping.c scans one. The ping module builds
  one ICMP packet when it is loaded; the kernel's checksum routine, the device, the route and
  \<open>ip_local_out\<close> are parameters, and the freshly allocated memory holds anything.
\<close>

section \<open>Addresses\<close>

text \<open>The four bytes that \<open>ntoa\<close> masks and shifts out; the result is the static buffer.\<close>

definition ntoa :: "u32 \<Rightarrow> byte list option" where
  "ntoa addr = st_bytes (replicate 18 0) 0
     (decimal (unat (addr AND 0x000000FF)) @ [46] @
      decimal (unat (drop_bit 8 (addr AND 0x0000FF00))) @ [46] @
      decimal (unat (drop_bit 16 (addr AND 0x00FF0000))) @ [46] @
      decimal (unat (drop_bit 24 (addr AND 0xFF000000))) @ [0])"

text \<open>\<^verbatim>\<open>sscanf\<close> with \<^verbatim>\<open>"%d.%d.%d.%d"\<close>; numbers that are not converted stay uninitialised.\<close>

definition scan_dot :: "byte list \<Rightarrow> byte list option" where
  "scan_dot str = (case str of c # cs \<Rightarrow> if c = 46 then Some cs else None | [] \<Rightarrow> None)"

definition inet_addr :: "byte list \<Rightarrow> u32 option" where
  "inet_addr str = do {
     (a, str) \<leftarrow> scan_d (cstr str);
     str \<leftarrow> scan_dot str;
     (b, str) \<leftarrow> scan_d str;
     str \<leftarrow> scan_dot str;
     (c, str) \<leftarrow> scan_d str;
     str \<leftarrow> scan_dot str;
     (d, str) \<leftarrow> scan_d str;
     Some (word32_of (word_of_int a) (word_of_int b) (word_of_int c) (word_of_int d)) }"

lemma masked_bytes:
  fixes w :: u32
  shows "unat (w AND 0x000000FF) = unat (byte0 w)"
    "unat (drop_bit 8 (w AND 0x0000FF00)) = unat (byte1 w)"
    "unat (drop_bit 16 (w AND 0x00FF0000)) = unat (byte2 w)"
    "unat (drop_bit 24 (w AND 0xFF000000)) = unat (byte3 w)"
proof -
  have m: "w AND 0x000000FF = ucast (byte0 w)" "drop_bit 8 (w AND 0x0000FF00) = ucast (byte1 w)"
    "drop_bit 16 (w AND 0x00FF0000) = ucast (byte2 w)" "drop_bit 24 (w AND 0xFF000000) = ucast (byte3 w)"
    by (rule bit_word_eqI, auto simp: byte0_def byte1_def byte2_def byte3_def bit_simps
        bit_numeral_rec less_Suc_eq eval_nat_numeral)+
  then show "unat (w AND 0x000000FF) = unat (byte0 w)"
    "unat (drop_bit 8 (w AND 0x0000FF00)) = unat (byte1 w)"
    "unat (drop_bit 16 (w AND 0x00FF0000)) = unat (byte2 w)"
    "unat (drop_bit 24 (w AND 0xFF000000)) = unat (byte3 w)"
    by (simp_all only: m unat_ucast_byte)
qed

lemma ntoa_eq:
  "\<exists>pad. ntoa w = Some (decimal (unat (byte0 w)) @ 46 # decimal (unat (byte1 w)) @ 46 #
      decimal (unat (byte2 w)) @ 46 # decimal (unat (byte3 w)) @ 0 # pad)"
proof -
  have "length (decimal (unat b)) \<le> 3" for b :: byte
    using length_decimal [of 3 "unat b"] byte_bound [of b] by simp
  from this [of "byte0 w"] this [of "byte1 w"] this [of "byte2 w"] this [of "byte3 w"] show ?thesis
    unfolding ntoa_def masked_bytes by (simp add: st_bytes_def)
qed

lemma inet_addr_dotted:
  "inet_addr (decimal (unat a) @ 46 # decimal (unat b) @ 46 # decimal (unat c) @ 46 #
      decimal (unat d) @ 0 # pad) = Some (word32_of a b c d)"
proof -
  have dot: "\<not> is_digit 46" by (simp add: is_digit_def)
  have "cstr (decimal (unat a) @ 46 # decimal (unat b) @ 46 # decimal (unat c) @ 46 #
      decimal (unat d) @ 0 # pad) =
    decimal (unat a) @ 46 # decimal (unat b) @ 46 # decimal (unat c) @ 46 # decimal (unat d) @ []"
    by (simp add: cstr_append decimal_nonzero)
  then show ?thesis
    unfolding inet_addr_def
    by (simp only: scan_d_decimal list.sel dot simp_thms Option.bind.simps prod.case scan_dot_def
        list.case if_True) simp
qed

section \<open>The packet of the ping module\<close>

text \<open>"192.168.5.2" and "8.8.8.8".\<close>

definition SADDR :: "byte list" where
  "SADDR = [49, 57, 50, 46, 49, 54, 56, 46, 53, 46, 50, 0]"

definition DADDR :: "byte list" where
  "DADDR = [56, 46, 56, 46, 56, 46, 56, 0]"

text \<open>
  \<open>alloc_skb\<close> gives 42 bytes of any content or no memory; the device is looked up by name and may
  be missing, which the code does not check. The result is the return value and the packet that
  goes to \<open>ip_local_out\<close>.
\<close>

definition ping_create_packet :: "(byte list \<Rightarrow> u16) \<Rightarrow> (u32 \<Rightarrow> u32 \<Rightarrow> nat \<Rightarrow> nat option) \<Rightarrow> nat option
    \<Rightarrow> byte list option \<Rightarrow> (int \<times> sk_buff option) option" where
  "ping_create_packet ip_compute_csum ip_route ndev alloc =
     (case alloc of None \<Rightarrow> Some (-1, None) | Some fresh \<Rightarrow> do {
        let skb = \<lparr>skb_mem = drop 14 fresh, network_header = 0, transport_header = 20,
                   skb_len = 28, skb_tail = 28, skb_rtable = None, skb_dev = None\<rparr>;
        saddr \<leftarrow> inet_addr SADDR;
        daddr \<leftarrow> inet_addr DADDR;
        ifindex \<leftarrow> ndev;
        rt \<leftarrow> ip_route saddr daddr ifindex;
        let skb = skb\<lparr>skb_rtable := Some rt, skb_dev := Some ifindex\<rparr>;
        let iph = network_header skb;
        let m = skb_mem skb;
        b \<leftarrow> ld8 m iph;
        m \<leftarrow> st8 m iph ((b AND 0xF0) OR 5);
        b \<leftarrow> ld8 m iph;
        m \<leftarrow> st8 m iph ((b AND 0x0F) OR 0x40);
        m \<leftarrow> st8 m (iph + 1) 0;
        m \<leftarrow> st16 m (iph + 2) (htons 28);
        m \<leftarrow> st16 m (iph + 4) (htons 12345);
        m \<leftarrow> st16 m (iph + 6) 0;
        m \<leftarrow> st8 m (iph + 8) 255;
        m \<leftarrow> st8 m (iph + 9) IPPROTO_ICMP;
        m \<leftarrow> st16 m (iph + 10) 0;
        m \<leftarrow> st32 m (iph + 12) saddr;
        m \<leftarrow> st32 m (iph + 16) daddr;
        let icmph = transport_header skb;
        m \<leftarrow> st8 m icmph 8;
        m \<leftarrow> st8 m (icmph + 1) 0;
        m \<leftarrow> st16 m (icmph + 6) 1231;
        m \<leftarrow> st16 m (icmph + 4) 0;
        block \<leftarrow> ld_bytes m icmph 8;
        m \<leftarrow> st16 m (icmph + 2) (ip_compute_csum block);
        Some (0, Some (skb\<lparr>skb_mem := m\<rparr>)) })"

definition ping_init_module :: "(int \<times> sk_buff option) option \<Rightarrow> (int \<times> sk_buff option) option" where
  "ping_init_module r = do { (_, sent) \<leftarrow> r; Some (0, sent) }"

lemma inet_addr_literals:
  "inet_addr SADDR = Some (word32_of 192 168 5 2)" "inet_addr DADDR = Some (word32_of 8 8 8 8)"
proof -
  have d: "decimal 192 = [49, 57, 50]" "decimal 168 = [49, 54, 56]" "decimal 5 = [53]"
    "decimal 2 = [50]" "decimal 8 = [56]"
    by (simp_all add: decimal.simps)
  show "inet_addr SADDR = Some (word32_of 192 168 5 2)"
    using inet_addr_dotted [of 192 168 5 2 "[]"] by (simp add: SADDR_def d)
  show "inet_addr DADDR = Some (word32_of 8 8 8 8)"
    using inet_addr_dotted [of 8 8 8 8 "[]"] by (simp add: DADDR_def d)
qed

text \<open>Every byte of the packet; \<open>g\<close> and \<open>h\<close> are what stood in the checksum field before.\<close>

definition ping_bytes :: "(byte list \<Rightarrow> u16) \<Rightarrow> byte \<Rightarrow> byte \<Rightarrow> byte list" where
  "ping_bytes csum g h =
     [0x45, 0, 0, 28, 0x30, 0x39, 0, 0, 255, 1, 0, 0, 192, 168, 5, 2, 8, 8, 8, 8,
      8, 0, byte0 (csum [8, 0, g, h, 0, 0, 0xCF, 4]), byte1 (csum [8, 0, g, h, 0, 0, 0xCF, 4]),
      0, 0, 0xCF, 4]"

lemma ping_create_packet_eq:
  assumes "length fresh = 42" "ip_route (word32_of 192 168 5 2) (word32_of 8 8 8 8) ifindex = Some rt"
  shows "ping_create_packet csum ip_route (Some ifindex) (Some fresh) =
    Some (0, Some \<lparr>skb_mem = ping_bytes csum (fresh ! 36) (fresh ! 37), network_header = 0,
       transport_header = 20, skb_len = 28, skb_tail = 28, skb_rtable = Some rt, skb_dev = Some ifindex\<rparr>)"
proof -
  define m where "m = drop 14 fresh"
  have len: "length m = 28" using assms(1) by (simp add: m_def)
  have gh: "fresh ! 36 = m ! 22" "fresh ! 37 = m ! 23" using assms(1) by (simp_all add: m_def)
  have "\<exists>x0 x1 x2 x3 x4 x5 x6 x7 x8 x9 y0 y1 y2 y3 y4 y5 y6 y7 y8 y9 z0 z1 z2 z3 z4 z5 z6 z7.
    m = [x0, x1, x2, x3, x4, x5, x6, x7, x8, x9, y0, y1, y2, y3, y4, y5, y6, y7, y8, y9,
         z0, z1, z2, z3, z4, z5, z6, z7]"
    using len by (auto simp: length_Suc_conv eval_nat_numeral)
  then obtain x0 x1 x2 x3 x4 x5 x6 x7 x8 x9 y0 y1 y2 y3 y4 y5 y6 y7 y8 y9 z0 z1 z2 z3 z4 z5 z6 z7 where
    m: "m = [x0, x1, x2, x3, x4, x5, x6, x7, x8, x9, y0, y1, y2, y3, y4, y5, y6, y7, y8, y9,
         z0, z1, z2, z3, z4, z5, z6, z7]" by (elim exE) (rule that)
  have swaps: "byte0 (htons 28) = 0" "byte1 (htons 28) = 28" "byte0 (htons 12345) = 0x30"
    "byte1 (htons 12345) = 0x39" "byte0 (0 :: u16) = 0" "byte1 (0 :: u16) = 0"
    "byte0 (1231 :: u16) = 0xCF" "byte1 (1231 :: u16) = 4"
    by (simp_all add: bswap16_def byte0_def byte1_def)
  show ?thesis
    unfolding ping_create_packet_def option.case inet_addr_literals Option.bind.simps Let_def gh
    by (simp add: assms(2) m st8_eq st16_eq st32_eq ld8_eq ld_bytes_def version_and_ihl swaps
        ping_bytes_def flip: m_def)
qed

section \<open>Properties\<close>

text \<open>
  Printing and scanning addresses is a round trip: \<open>ntoa\<close> never leaves its 18 byte buffer,
  terminates the text, and scanning that text gives the address back; so two addresses that
  print alike are equal.
\<close>

lemma inet_roundtrip:
  "\<exists>text. ntoa w = Some text \<and> length text = 18 \<and> terminated text \<and> inet_addr text = Some w"
proof -
  obtain pad where pad: "ntoa w = Some (decimal (unat (byte0 w)) @ 46 # decimal (unat (byte1 w)) @ 46 #
      decimal (unat (byte2 w)) @ 46 # decimal (unat (byte3 w)) @ 0 # pad)"
    using ntoa_eq by blast
  then have "length (the (ntoa w)) = 18" by (auto simp: ntoa_def dest: length_st(4))
  with pad inet_addr_dotted [of "byte0 w" "byte1 w" "byte2 w" "byte3 w" pad] show ?thesis by simp
qed

lemma ping_bytes_sum:
  fixes g h :: byte and c :: u16
  defines "x \<equiv> unat (word16_of g h)"
  shows "word_sum [8, 0, g, h, 0, 0, 0xCF, 4] = 1239 + x"
    "rfc1071 [8, 0, byte0 c, byte1 c, 0, 0, 0xCF, 4] = 0 \<longleftrightarrow> 65535 dvd 1239 + unat c"
    "unat (rfc1071 [8, 0, g, h, 0, 0, 0xCF, 4]) = 65535 - norm16 (1239 + x)"
proof -
  have w: "unat (word16_of 8 0) = 8" "unat (word16_of 0xCF 4) = 1231" "unat (word16_of 0 0) = 0"
    by (simp_all add: unat_word16_of)
  show s: "word_sum [8, 0, g, h, 0, 0, 0xCF, 4] = 1239 + x" by (simp add: word_sum_def w x_def)
  have not: "unat (NOT (word_of_nat (norm16 k) :: u16)) = 65535 - norm16 k" for k
    using norm16_le [of k] by (simp add: unat_not_u16 unat_of_nat)
  show "unat (rfc1071 [8, 0, g, h, 0, 0, 0xCF, 4]) = 65535 - norm16 (1239 + x)"
    by (simp only: rfc1071_eq s not)
  have "word_sum [8, 0, byte0 c, byte1 c, 0, 0, 0xCF, 4] = 1239 + unat c"
    by (simp add: word_sum_def w)
  then have "unat (rfc1071 [8, 0, byte0 c, byte1 c, 0, 0, 0xCF, 4]) = 65535 - norm16 (1239 + unat c)"
    by (simp only: rfc1071_eq not)
  then show "rfc1071 [8, 0, byte0 c, byte1 c, 0, 0, 0xCF, 4] = 0 \<longleftrightarrow> 65535 dvd 1239 + unat c"
    using norm16_eq_65535_iff [of "1239 + unat c"] norm16_le [of "1239 + unat c"]
    by (auto simp: unat_eq_zero [symmetric] simp del: unat_eq_zero)
qed

lemma checksum_of_garbage:
  assumes "x \<le> 65535"
  shows "65535 dvd 1239 + (65535 - norm16 (1239 + x)) \<longleftrightarrow> x = 0 \<or> x = 65535"
proof (cases "1239 + x \<le> 65535")
  case True
  then have "1239 + (65535 - norm16 (1239 + x)) = 65535 - x" by (simp add: norm16_small)
  moreover have "x \<noteq> 0 \<Longrightarrow> \<not> 65535 dvd 65535 - x"
    using True by (intro nat_dvd_not_less) auto
  ultimately show ?thesis using True by (cases "x = 0") auto
next
  case False
  then have "norm16 (1239 + x) = 1239 + x - 65535"
    using norm16_minus [of "1239 + x"] norm16_small [of "1239 + x - 65535"] assms by simp
  then have eq: "1239 + (65535 - norm16 (1239 + x)) = 65535 + (65535 - x)" using False assms by simp
  show ?thesis
  proof (cases "x = 65535")
    case False
    then have "\<not> 65535 dvd 65535 - x" using \<open>\<not> 1239 + x \<le> 65535\<close> assms by (intro nat_dvd_not_less) auto
    then show ?thesis using False \<open>\<not> 1239 + x \<le> 65535\<close> unfolding eq by (simp only: dvd_add_triv_left_iff) simp
  qed (use eq in simp)
qed

text \<open>
  C19. The packet of the ping module: an IPv4 header of 20 bytes with the literal addresses,
  protocol ICMP and the length 28, and an echo request, all bytes of it determined. Its ICMP
  checksum is computed before the checksum field is cleared: with the Internet checksum as
  the kernel's routine, the message verifies at the receiver exactly when the two bytes of
  fresh memory that became the field happened to be both 0 or both 255.
\<close>

theorem kernel_ping_packet:
  assumes "length fresh = 42" "ip_route (word32_of 192 168 5 2) (word32_of 8 8 8 8) ifindex = Some rt"
  shows "\<exists>skb. ping_create_packet rfc1071 ip_route (Some ifindex) (Some fresh) = Some (0, Some skb)
    \<and> take 20 (skb_mem skb) =
        [0x45, 0, 0, 28, 0x30, 0x39, 0, 0, 255, 1, 0, 0, 192, 168, 5, 2, 8, 8, 8, 8]
    \<and> (\<exists>c0 c1. drop 20 (skb_mem skb) = [8, 0, c0, c1, 0, 0, 0xCF, 4])
    \<and> (rfc1071 (drop 20 (skb_mem skb)) = 0 \<longleftrightarrow> word16_of (fresh ! 36) (fresh ! 37) \<in> {0, 0xFFFF})"
proof -
  let ?x = "word16_of (fresh ! 36) (fresh ! 37)"
  let ?m = "ping_bytes rfc1071 (fresh ! 36) (fresh ! 37)"
  have "unat ?x \<le> 65535" using unsigned_less [of ?x, where 'a = nat] by simp
  moreover have "unat ?x = 65535 \<longleftrightarrow> ?x = 0xFFFF" by (simp add: word_unat_eq_iff)
  ultimately have "rfc1071 (drop 20 ?m) = 0 \<longleftrightarrow> ?x \<in> {0, 0xFFFF}"
    using checksum_of_garbage [of "unat ?x"]
    by (simp add: ping_bytes_def ping_bytes_sum(2,3) unat_eq_zero)
  then show ?thesis
    unfolding ping_create_packet_eq [of fresh ip_route ifindex rt rfc1071, OF assms]
    by (simp add: ping_bytes_def)
qed

theorem kernel_ping_packet_witness:
  "\<exists>skb. ping_create_packet rfc1071 (\<lambda>_ _ _. Some 1) (Some 2) (Some (replicate 42 7)) = Some (0, Some skb)
     \<and> rfc1071 (drop 20 (skb_mem skb)) \<noteq> 0"
  using kernel_ping_packet [of "replicate 42 7" "\<lambda>_ _ _. Some 1" 2 1]
  by (auto simp: word16_of_def)

end
