(* ===== verification/RtNetlink.thy ===== *)
theory RtNetlink
  imports Inet
begin

text \<open>
  core/netlinkdev: the routing table printer (netlink\_rt/netlink\_recv.c) and the pair of
  kernel and user module that exchange one greeting (netlink\_kernel). The message and attribute
  macros of the netlink headers are written out on byte offsets. \<open>if_indextoname\<close> belongs to the
  C library's interface table and is a parameter: the name it writes, or none.
\<close>

section \<open>Attributes of a route\<close>

text \<open>The local \<^verbatim>\<open>struct route_info\<close>; it is not initialised, so its first contents are a parameter.\<close>

record route_info =
  dst_addr :: u32
  src_addr :: u32
  gateway :: u32
  if_name :: "byte list"

abbreviation (input) RTA_DST :: u16 where "RTA_DST \<equiv> 1"
abbreviation (input) RTA_OIF :: u16 where "RTA_OIF \<equiv> 4"
abbreviation (input) RTA_GATEWAY :: u16 where "RTA_GATEWAY \<equiv> 5"
abbreviation (input) RTA_PREFSRC :: u16 where "RTA_PREFSRC \<equiv> 7"
abbreviation (input) RT_TABLE_MAIN :: byte where "RT_TABLE_MAIN \<equiv> 254"

definition align4 :: "nat \<Rightarrow> nat" where
  "align4 n = (n + 3) div 4 * 4"

lemma align4_ge: "n \<le> align4 n"
  by (simp add: align4_def)

text \<open>The body of the loop: the switch on \<^verbatim>\<open>rta_type\<close>.\<close>

definition take_attr :: "(u32 \<Rightarrow> byte list option) \<Rightarrow> byte list \<Rightarrow> nat \<Rightarrow> u16 \<Rightarrow> route_info \<Rightarrow> route_info option" where
  "take_attr if_indextoname m off ty ri =
     (if ty = RTA_OIF then do {
        index \<leftarrow> ld32 m (off + 4);
        case if_indextoname index of
          None \<Rightarrow> Some ri
        | Some name \<Rightarrow> do { buf \<leftarrow> st_bytes (if_name ri) 0 (name @ [0]); Some (ri\<lparr>if_name := buf\<rparr>) } }
      else if ty = RTA_GATEWAY then do { a \<leftarrow> ld32 m (off + 4); Some (ri\<lparr>gateway := a\<rparr>) }
      else if ty = RTA_PREFSRC then do { a \<leftarrow> ld32 m (off + 4); Some (ri\<lparr>src_addr := a\<rparr>) }
      else if ty = RTA_DST then do { a \<leftarrow> ld32 m (off + 4); Some (ri\<lparr>dst_addr := a\<rparr>) }
      else Some ri)"

text \<open>
  The loop over the attributes, with \<^verbatim>\<open>RTA_OK\<close> and \<^verbatim>\<open>RTA_NEXT\<close>. It ends for every contents of the
  buffer, since an accepted attribute has at least four bytes.
\<close>

function rta_loop :: "(u32 \<Rightarrow> byte list option) \<Rightarrow> byte list \<Rightarrow> nat \<Rightarrow> int \<Rightarrow> route_info \<Rightarrow> route_info option" where
  "rta_loop ifn m off rt_len ri =
     (if rt_len < 4 then Some ri
      else case ld16 m off of None \<Rightarrow> None
      | Some rta_len \<Rightarrow>
          if unat rta_len < 4 \<or> rt_len < int (unat rta_len) then Some ri
          else case ld16 m (off + 2) of None \<Rightarrow> None
          | Some ty \<Rightarrow> (case take_attr ifn m off ty ri of None \<Rightarrow> None
              | Some ri \<Rightarrow> rta_loop ifn m (off + align4 (unat rta_len))
                           (rt_len - int (align4 (unat rta_len))) ri))"
  by pat_completeness auto
termination
proof (relation "measure (\<lambda>(ifn, m, off, rt_len, ri). nat rt_len)")
  fix ifn m off rt_len ri rta_len ty ri'
  assume "\<not> rt_len < (4 :: int)" "\<not> (unat (rta_len :: u16) < 4 \<or> rt_len < int (unat rta_len))"
  then show "((ifn, m, off + align4 (unat rta_len), rt_len - int (align4 (unat rta_len)), ri' :: route_info),
      (ifn, m, off, rt_len, ri)) \<in> measure (\<lambda>(ifn, m, off, rt_len, ri). nat rt_len)"
    using align4_ge [of "unat rta_len"] by simp
qed simp

declare rta_loop.simps [simp del]

section \<open>Messages\<close>

definition no_dst :: "byte list" where "no_dst = [48, 46, 48, 46, 48, 46, 48, 32, 32]"
definition no_addr :: "byte list" where "no_addr = [42, 46, 42, 46, 42, 46, 42]"

definition addr_text :: "byte list \<Rightarrow> u32 \<Rightarrow> byte list option" where
  "addr_text none a = (if a \<noteq> 0 then do { text \<leftarrow> ntoa a; _ \<leftarrow> strlen text; Some (cstr text) } else Some none)"

text \<open>The line that is printed, empty for a route of another table.\<close>

definition print_route :: "(u32 \<Rightarrow> byte list option) \<Rightarrow> route_info \<Rightarrow> byte list \<Rightarrow> nat \<Rightarrow> byte list option" where
  "print_route ifn rt_info m nlh = do {
     let rt_entry = nlh + 16;
     let rt_attr = rt_entry + 12;
     rtm_dst_len \<leftarrow> ld8 m (rt_entry + 1);
     rtm_table \<leftarrow> ld8 m (rt_entry + 4);
     if rtm_table \<noteq> RT_TABLE_MAIN then Some []
     else do {
       nlmsg_len \<leftarrow> ld32 m nlh;
       let rt_len = sint (nlmsg_len - 28);
       ri \<leftarrow> rta_loop ifn m rt_attr rt_len rt_info;
       dst \<leftarrow> addr_text no_dst (dst_addr ri);
       gw \<leftarrow> addr_text no_addr (gateway ri);
       _ \<leftarrow> strlen (if_name ri);
       src \<leftarrow> addr_text no_addr (src_addr ri);
       Some (dst @ [9] @ gw @ [9] @ cstr (if_name ri) @ [9] @ src @ [10]) } }"

text \<open>What \<open>reply_msg\<close> prints: lines of routes and notes about unknown messages.\<close>

datatype nl_out = Route_Line "byte list" | Message_Type u16 u32

function nl_loop :: "(u32 \<Rightarrow> byte list option) \<Rightarrow> route_info \<Rightarrow> byte list \<Rightarrow> nat \<Rightarrow> int \<Rightarrow> nl_out list option" where
  "nl_loop ifn stack m p len =
     (if len < 16 then Some []
      else case ld32 m p of None \<Rightarrow> None
      | Some nlmsg_len \<Rightarrow>
          if unat nlmsg_len < 16 \<or> len < int (unat nlmsg_len) then Some []
          else case ld16 m (p + 4) of None \<Rightarrow> None
          | Some ty \<Rightarrow> do {
              out \<leftarrow> (if ty = 3 then Some []
                     else if ty = 16 then Some []
                     else if ty = 24 then do { l \<leftarrow> print_route ifn stack m p; Some [Route_Line l] }
                     else Some [Message_Type ty nlmsg_len]);
              rest \<leftarrow> nl_loop ifn stack m (p + align4 (unat nlmsg_len))
                        (len - int (align4 (unat nlmsg_len)));
              Some (out @ rest) })"
  by pat_completeness auto
termination
proof (relation "measure (\<lambda>(ifn, stack, m, p, len). nat len)")
  fix ifn stack m p len nlmsg_len ty out
  assume "\<not> len < (16 :: int)" "\<not> (unat (nlmsg_len :: u32) < 16 \<or> len < int (unat nlmsg_len))"
  then show "((ifn, stack :: route_info, m, p + align4 (unat nlmsg_len), len - int (align4 (unat nlmsg_len))),
      (ifn, stack, m, p, len)) \<in> measure (\<lambda>(ifn, stack, m, p, len). nat len)"
    using align4_ge [of "unat nlmsg_len"] by simp
qed simp

declare nl_loop.simps [simp del]

text \<open>
  \<open>reply_msg\<close>: \<open>len\<close> and \<open>received\<close> are the answer of \<open>recvmsg\<close>, the bytes behind them in the
  8192 byte buffer are what was there before.
\<close>

abbreviation (input) BUF_LEN :: nat where "BUF_LEN \<equiv> 8192"

definition reply_msg :: "(u32 \<Rightarrow> byte list option) \<Rightarrow> route_info \<Rightarrow> byte list \<Rightarrow> int \<Rightarrow> byte list
    \<Rightarrow> (int \<times> nl_out list) option" where
  "reply_msg ifn stack old len received =
     (if len < 0 then Some (-1, []) else do {
        message \<leftarrow> st_bytes old 0 received;
        out \<leftarrow> nl_loop ifn stack message 0 len;
        Some (0, out) })"

section \<open>The format\<close>

text \<open>Attributes and route messages as the kernel lays them out.\<close>

type_synonym attr = "u16 \<times> byte list"

definition enc_attr :: "attr \<Rightarrow> byte list" where
  "enc_attr a = (case a of (ty, d) \<Rightarrow>
     (let l = 4 + length d; w = word_of_nat l :: u16
      in [byte0 w, byte1 w, byte0 ty, byte1 ty] @ d @ replicate (align4 l - l) 0))"

definition attr_ok :: "attr \<Rightarrow> bool" where
  "attr_ok a = (case a of (ty, d) \<Rightarrow> 4 \<le> length d \<and> length d < 65000)"

definition attr_word :: "byte list \<Rightarrow> u32" where
  "attr_word d = word32_of (d ! 0) (d ! 1) (d ! 2) (d ! 3)"

text \<open>What one attribute means for the route.\<close>

definition apply_attr :: "(u32 \<Rightarrow> byte list option) \<Rightarrow> attr \<Rightarrow> route_info \<Rightarrow> route_info" where
  "apply_attr ifn a ri = (case a of (ty, d) \<Rightarrow>
     if ty = RTA_OIF then (case ifn (attr_word d) of None \<Rightarrow> ri
        | Some name \<Rightarrow> ri\<lparr>if_name := name @ 0 # drop (length name + 1) (if_name ri)\<rparr>)
     else if ty = RTA_GATEWAY then ri\<lparr>gateway := attr_word d\<rparr>
     else if ty = RTA_PREFSRC then ri\<lparr>src_addr := attr_word d\<rparr>
     else if ty = RTA_DST then ri\<lparr>dst_addr := attr_word d\<rparr>
     else ri)"

text \<open>Interface names have fewer than 16 bytes and no zero.\<close>

definition names_ok :: "(u32 \<Rightarrow> byte list option) \<Rightarrow> bool" where
  "names_ok ifn \<longleftrightarrow> (\<forall>i n. ifn i = Some n \<longrightarrow> length n < 16 \<and> 0 \<notin> set n)"

lemma length_enc_attr: "length (enc_attr (ty, d)) = align4 (4 + length d)"
  using align4_ge [of "4 + length d"] by (simp add: enc_attr_def Let_def)

lemma ld_append:
  "ld8 (pre @ xs) (length pre + i) = ld8 xs i"
  "ld16 (pre @ xs) (length pre + i) = ld16 xs i"
  "ld32 (pre @ xs) (length pre + i) = ld32 xs i"
  by (simp_all add: ld8_def ld16_def ld32_def nth_append add.assoc)

lemma apply_attr_name:
  "names_ok ifn \<Longrightarrow> length (if_name ri) = 16 \<Longrightarrow> length (if_name (apply_attr ifn a ri)) = 16"
  by (auto simp: apply_attr_def names_ok_def split: prod.splits option.splits) fastforce

lemma rta_loop_step:
  assumes "attr_ok (ty, d)" "names_ok ifn" "length (if_name ri) = 16"
    and "int (align4 (4 + length d)) \<le> len"
  shows "rta_loop ifn (pre @ enc_attr (ty, d) @ rest) (length pre) len ri =
    rta_loop ifn (pre @ enc_attr (ty, d) @ rest) (length pre + align4 (4 + length d))
      (len - int (align4 (4 + length d))) (apply_attr ifn (ty, d) ri)"
proof -
  let ?m = "pre @ enc_attr (ty, d) @ rest" and ?l = "4 + length d"
  have d: "4 \<le> length d" "?l < 65536" using assms(1) by (simp_all add: attr_ok_def)
  from d(1) obtain d0 d1 d2 d3 ds where ds: "d = d0 # d1 # d2 # d3 # ds"
    by (auto simp: Suc_le_length_iff eval_nat_numeral)
  let ?w = "word_of_nat ?l :: u16" and ?x = "enc_attr (ty, d) @ rest"
  obtain tail where x: "?x = byte0 ?w # byte1 ?w # byte0 ty # byte1 ty # d0 # d1 # d2 # d3 # tail"
    by (simp add: enc_attr_def Let_def ds del: of_nat_add)
  have "ld16 ?x 0 = Some ?w" "ld16 ?x 2 = Some ty" "ld32 ?x 4 = Some (attr_word d)"
    unfolding x by (simp_all add: ld16_def ld32_def ld8_def attr_word_def ds eval_nat_numeral del: of_nat_add)
  then have hdr: "ld16 ?m (length pre) = Some ?w" "ld16 ?m (length pre + 2) = Some ty"
    "ld32 ?m (length pre + 4) = Some (attr_word d)"
    using ld_append(2) [of pre ?x 0] ld_append(2) [of pre ?x 2] ld_append(3) [of pre ?x 4] by simp_all
  have un: "unat (word_of_nat ?l :: u16) = ?l" using d(2) by (simp add: unat_of_nat del: of_nat_add)
  have "length n \<le> 15" if "ifn i = Some n" for i n
    using assms(2) that by (fastforce simp: names_ok_def)
  then have "take_attr ifn ?m (length pre) ty ri = Some (apply_attr ifn (ty, d) ri)"
    using assms(3) hdr(3)
    by (auto simp: take_attr_def apply_attr_def st_bytes_def split: option.splits)
  then show ?thesis
    using assms(4) align4_ge [of ?l] hdr un
    by (subst rta_loop.simps) (simp del: of_nat_add)
qed

text \<open>Parsing the attributes that were laid out gives their meaning, in order.\<close>

lemma rta_loop_attrs:
  assumes "names_ok ifn"
  shows "\<forall>a \<in> set as. attr_ok a \<Longrightarrow> length (if_name ri) = 16 \<Longrightarrow>
    rta_loop ifn (pre @ concat (map enc_attr as) @ post) (length pre)
      (int (length (concat (map enc_attr as)))) ri = Some (fold (apply_attr ifn) as ri)"
proof (induction as arbitrary: pre ri)
  case Nil
  then show ?case by (subst rta_loop.simps) simp
next
  case (Cons a as)
  obtain ty d where a: "a = (ty, d)" by (cases a)
  let ?rest = "concat (map enc_attr as) @ post"
  let ?n = "align4 (4 + length d)"
  have "rta_loop ifn (pre @ enc_attr (ty, d) @ ?rest) (length pre)
      (int (length (concat (map enc_attr (a # as))))) ri =
    rta_loop ifn ((pre @ enc_attr (ty, d)) @ ?rest) (length (pre @ enc_attr (ty, d)))
      (int (length (concat (map enc_attr as)))) (apply_attr ifn (ty, d) ri)"
    using Cons.prems a rta_loop_step [OF _ assms, of ty d ri _ pre ?rest]
    by (simp add: length_enc_attr)
  also have "\<dots> = Some (fold (apply_attr ifn) as (apply_attr ifn (ty, d) ri))"
    using Cons.prems by (intro Cons.IH apply_attr_name [OF assms]) auto
  finally show ?case by (simp add: a)
qed

text \<open>A route message: its header, the fixed part with the table, the attributes.\<close>

record route_msg =
  rm_hdr :: "byte list"
  rm_fixed :: "byte list"
  rm_attrs :: "attr list"

definition msg_len :: "route_msg \<Rightarrow> nat" where
  "msg_len r = 28 + length (concat (map enc_attr (rm_attrs r)))"

definition enc_msg :: "route_msg \<Rightarrow> byte list" where
  "enc_msg r = (let w = word_of_nat (msg_len r) :: u32
     in [byte0 w, byte1 w, byte2 w, byte3 w, 24, 0] @ rm_hdr r @ rm_fixed r
        @ concat (map enc_attr (rm_attrs r)))"

definition msg_ok :: "route_msg \<Rightarrow> bool" where
  "msg_ok r \<longleftrightarrow> length (rm_hdr r) = 10 \<and> length (rm_fixed r) = 12 \<and> (\<forall>a \<in> set (rm_attrs r). attr_ok a)
     \<and> msg_len r \<le> BUF_LEN"

text \<open>The line for a route: what the attributes say, absent addresses by their placeholder.\<close>

definition text_of :: "byte list \<Rightarrow> u32 \<Rightarrow> byte list" where
  "text_of none a = (if a = 0 then none
     else decimal (unat (byte0 a)) @ [46] @ decimal (unat (byte1 a)) @ [46]
        @ decimal (unat (byte2 a)) @ [46] @ decimal (unat (byte3 a)))"

definition route_line :: "(u32 \<Rightarrow> byte list option) \<Rightarrow> route_info \<Rightarrow> route_msg \<Rightarrow> byte list" where
  "route_line ifn stack r = (let ri = fold (apply_attr ifn) (rm_attrs r) stack
     in text_of no_dst (dst_addr ri) @ [9] @ text_of no_addr (gateway ri) @ [9]
        @ cstr (if_name ri) @ [9] @ text_of no_addr (src_addr ri) @ [10])"

lemma addr_text_eq: "addr_text none a = Some (text_of none a)"
proof -
  obtain pad where "ntoa a = Some (decimal (unat (byte0 a)) @ 46 # decimal (unat (byte1 a)) @ 46 #
      decimal (unat (byte2 a)) @ 46 # decimal (unat (byte3 a)) @ 0 # pad)"
    using ntoa_eq by blast
  then show ?thesis
    by (simp add: addr_text_def text_of_def strlen_eq cstr_append decimal_nonzero)
qed

lemma fold_attrs_name:
  assumes "names_ok ifn"
  shows "length (if_name ri) = 16 \<Longrightarrow> terminated (if_name ri) \<Longrightarrow>
    length (if_name (fold (apply_attr ifn) as ri)) = 16 \<and> terminated (if_name (fold (apply_attr ifn) as ri))"
proof (induction as arbitrary: ri)
  case (Cons a as)
  have "terminated (if_name (apply_attr ifn a ri))"
    using Cons.prems by (auto simp: apply_attr_def split: prod.splits option.splits)
  with Cons.IH apply_attr_name [OF assms Cons.prems(1)] show ?case by simp
qed simp

lemma print_route_eq:
  assumes "names_ok ifn" "msg_ok r" "length (if_name stack) = 16" "terminated (if_name stack)"
  shows "print_route ifn stack (pre @ enc_msg r @ post) (length pre) =
    Some (if rm_fixed r ! 4 = RT_TABLE_MAIN then route_line ifn stack r else [])"
proof -
  let ?w = "word_of_nat (msg_len r) :: u32" and ?as = "concat (map enc_attr (rm_attrs r))"
  let ?m = "pre @ enc_msg r @ post"
  have len: "length (rm_hdr r) = 10" "length (rm_fixed r) = 12" using assms(2) by (simp_all add: msg_ok_def)
  have ml: "28 \<le> msg_len r" "msg_len r \<le> 8192" using assms(2) by (simp_all add: msg_ok_def msg_len_def)
  have x: "enc_msg r @ post = byte0 ?w # byte1 ?w # byte2 ?w # byte3 ?w # 24 # 0 # rm_hdr r @ rm_fixed r @ ?as @ post"
    by (simp add: enc_msg_def Let_def)
  have "ld32 (enc_msg r @ post) 0 = Some ?w" unfolding x by (simp add: ld32_def ld8_def)
  moreover have fx: "ld8 (enc_msg r @ post) (16 + k) = Some (rm_fixed r ! k)" if "k < 12" for k
    unfolding x using that len by (simp add: ld8_def nth_append nth_Cons')
  ultimately have lds: "ld32 ?m (length pre) = Some ?w" "ld8 ?m (length pre + 16 + 1) = Some (rm_fixed r ! 1)"
    "ld8 ?m (length pre + 16 + 4) = Some (rm_fixed r ! 4)"
    using ld_append(1) [of pre "enc_msg r @ post" "16 + 1"] ld_append(1) [of pre "enc_msg r @ post" "16 + 4"]
      ld_append(3) [of pre "enc_msg r @ post" 0] fx [of 1] fx [of 4]
    by (simp_all add: ac_simps)
  have "?w - 28 = word_of_nat (length ?as)" by (simp add: msg_len_def)
  moreover have "length ?as < 2 ^ 31" using ml by (simp add: msg_len_def)
  then have "sint (word_of_nat (length ?as) :: u32) = int (length ?as)"
    by (simp only: signed_of_nat) (simp add: signed_take_bit_int_eq_self)
  ultimately have s: "sint (?w - 28) = int (length ?as)" by simp
  have "rta_loop ifn ((pre @ [byte0 ?w, byte1 ?w, byte2 ?w, byte3 ?w, 24, 0] @ rm_hdr r @ rm_fixed r) @ ?as @ post)
      (length (pre @ [byte0 ?w, byte1 ?w, byte2 ?w, byte3 ?w, 24, 0] @ rm_hdr r @ rm_fixed r))
      (int (length ?as)) stack = Some (fold (apply_attr ifn) (rm_attrs r) stack)"
    using assms(2,3) by (intro rta_loop_attrs [OF assms(1)]) (simp_all add: msg_ok_def)
  then have loop: "rta_loop ifn ?m (length pre + 16 + 12) (int (length ?as)) stack =
      Some (fold (apply_attr ifn) (rm_attrs r) stack)"
    using x len by (simp add: add.assoc)
  have "terminated (if_name (fold (apply_attr ifn) (rm_attrs r) stack))"
    using fold_attrs_name [OF assms(1,3,4)] by simp
  then show ?thesis
    unfolding print_route_def Let_def
    by (simp only: lds s loop Option.bind.simps addr_text_eq strlen_eq if_True route_line_def Let_def) simp
qed

section \<open>A whole reply\<close>

lemma align4_add: "4 dvd n \<Longrightarrow> align4 n = n" and align4_dvd: "4 dvd align4 n"
  by (auto simp: align4_def elim!: dvdE)

lemma attrs_aligned: "4 dvd length (concat (map enc_attr as))"
proof (induction as)
  case (Cons a as)
  then show ?case by (cases a) (simp add: length_enc_attr align4_dvd)
qed simp

lemma length_enc_msg:
  assumes "msg_ok r"
  shows "length (enc_msg r) = msg_len r" "align4 (msg_len r) = msg_len r"
    "unat (word_of_nat (msg_len r) :: u32) = msg_len r"
proof -
  show "length (enc_msg r) = msg_len r" using assms by (simp add: enc_msg_def msg_ok_def msg_len_def Let_def)
  have "4 dvd msg_len r" unfolding msg_len_def using attrs_aligned by (intro dvd_add) auto
  then show "align4 (msg_len r) = msg_len r" by (rule align4_add)
  show "unat (word_of_nat (msg_len r) :: u32) = msg_len r"
    using assms by (simp add: unat_of_nat msg_ok_def)
qed

definition spec_out :: "(u32 \<Rightarrow> byte list option) \<Rightarrow> route_info \<Rightarrow> route_msg \<Rightarrow> nl_out" where
  "spec_out ifn stack r =
     Route_Line (if rm_fixed r ! 4 = RT_TABLE_MAIN then route_line ifn stack r else [])"

lemma nl_loop_msgs:
  assumes "names_ok ifn" "length (if_name stack) = 16" "terminated (if_name stack)"
  shows "\<forall>r \<in> set rs. msg_ok r \<Longrightarrow>
    nl_loop ifn stack (pre @ concat (map enc_msg rs) @ post) (length pre)
      (int (length (concat (map enc_msg rs)))) = Some (map (spec_out ifn stack) rs)"
proof (induction rs arbitrary: pre)
  case Nil
  then show ?case by (subst nl_loop.simps) simp
next
  case (Cons r rs)
  let ?rest = "concat (map enc_msg rs) @ post" and ?w = "word_of_nat (msg_len r) :: u32"
  let ?m = "pre @ enc_msg r @ ?rest"
  have ok: "msg_ok r" using Cons.prems by simp
  note len = length_enc_msg [OF ok]
  have ml: "28 \<le> msg_len r" by (simp add: msg_len_def)
  obtain tail where x: "enc_msg r @ ?rest = byte0 ?w # byte1 ?w # byte2 ?w # byte3 ?w # 24 # 0 # tail"
    by (simp add: enc_msg_def Let_def)
  have "ld32 (enc_msg r @ ?rest) 0 = Some ?w" "ld16 (enc_msg r @ ?rest) 4 = Some 24"
    unfolding x by (simp_all add: ld32_def ld16_def ld8_def word16_of_def)
  then have hdr: "ld32 ?m (length pre) = Some ?w" "ld16 ?m (length pre + 4) = Some 24"
    using ld_append(3) [of pre "enc_msg r @ ?rest" 0] ld_append(2) [of pre "enc_msg r @ ?rest" 4]
    by simp_all
  have "nl_loop ifn stack ?m (length pre + msg_len r) (int (length (concat (map enc_msg rs)))) =
      Some (map (spec_out ifn stack) rs)"
    using Cons.IH [of "pre @ enc_msg r"] Cons.prems len(1) by simp
  then have "nl_loop ifn stack ?m (length pre) (int (length (concat (map enc_msg (r # rs))))) =
      Some (map (spec_out ifn stack) (r # rs))"
    using ml len hdr print_route_eq [OF assms(1) ok assms(2,3), of pre ?rest]
    by (subst nl_loop.simps) (simp add: spec_out_def)
  then show ?case by simp
qed

section \<open>The requests\<close>

text \<open>
  Both user programs fill a \<^verbatim>\<open>struct nlmsghdr\<close> of 16 bytes on the stack and hand 8208 bytes from
  its address to \<open>sendmsg\<close>; \<^verbatim>\<open>user_module.c\<close> also copies "Hello" behind it. \<open>obj\<close> is what the
  structure holds after the \<^verbatim>\<open>memset\<close> that clears only its first four bytes.
\<close>

definition nl_request :: "u32 \<Rightarrow> byte list \<Rightarrow> byte list option" where
  "nl_request pid obj = do {
     nlh \<leftarrow> st32 obj 0 0;
     nlh \<leftarrow> st32 nlh 0 8208;
     nlh \<leftarrow> st16 nlh 4 26;
     nlh \<leftarrow> st16 nlh 6 0x301;
     nlh \<leftarrow> st32 nlh 12 pid;
     nlh \<leftarrow> st32 nlh 8 1;
     Some nlh }"

text \<open>The bytes that \<open>sendmsg\<close> reads from the object.\<close>

definition rt_send :: "u32 \<Rightarrow> byte list \<Rightarrow> byte list option" where
  "rt_send pid obj = do { nlh \<leftarrow> nl_request pid obj; ld_bytes nlh 0 8208 }"

definition user_module_send :: "u32 \<Rightarrow> byte list \<Rightarrow> byte list option" where
  "user_module_send pid obj = do {
     nlh \<leftarrow> nl_request pid obj;
     nlh \<leftarrow> st_bytes nlh 16 [72, 101, 108, 108, 111, 0];
     ld_bytes nlh 0 8208 }"

text \<open>
  The receiver of the kernel module: the payload is printed as a string; the answer is 17 bytes
  that \<^verbatim>\<open>strncpy\<close> copies without a terminator. \<open>room\<close> is the answer of \<open>nlmsg_new\<close>; the result
  is the process that the answer goes to and its payload.
\<close>

definition kernel_greeting :: "byte list" where
  "kernel_greeting = [72, 101, 108, 108, 111, 32, 102, 114, 111, 109, 32, 107, 101, 114, 110, 101, 108, 0]"

definition nl_recv_msg :: "bool \<Rightarrow> byte list \<Rightarrow> (u32 \<times> byte list) option option" where
  "nl_recv_msg room skb_data = do {
     msg_size \<leftarrow> strlen kernel_greeting;
     _ \<leftarrow> strlen (drop 16 skb_data);
     pid \<leftarrow> ld32 skb_data 12;
     if \<not> room then Some None
     else do { payload \<leftarrow> strncpy kernel_greeting msg_size; Some (Some (pid, payload)) } }"

text \<open>
  Loading and unloading the module: \<open>created\<close> is the socket that the kernel made, \<open>nl_sk\<close> the global.
  The second result is the socket that is released.
\<close>

definition nl_init_module :: "nat option \<Rightarrow> int \<times> nat option" where
  "nl_init_module created = (case created of None \<Rightarrow> (-1, None) | Some sk \<Rightarrow> (0, Some sk))"

definition nl_cleanup_module :: "nat option \<Rightarrow> nat option \<times> nat option" where
  "nl_cleanup_module nl_sk = (nl_sk, nl_sk)"

text \<open>
  Both programs from the socket on: exit status 1 when it cannot be opened or the request cannot be
  sent. The greeting program receives into the message header that it sent and prints what
  stands behind it.
\<close>

definition user_main :: "int \<Rightarrow> u32 \<Rightarrow> byte list \<Rightarrow> int \<Rightarrow> byte list \<Rightarrow> (int \<times> byte list option) option" where
  "user_main sd pid obj ret_val answer =
     (if sd < 0 then Some (1, None)
      else do {
        nlh \<leftarrow> nl_request pid obj;
        nlh \<leftarrow> st_bytes nlh 16 [72, 101, 108, 108, 111, 0];
        _ \<leftarrow> user_module_send pid obj;
        if ret_val < 0 then Some (1, None)
        else do {
          nlh \<leftarrow> st_bytes nlh 0 (take 8208 answer);
          _ \<leftarrow> strlen (drop 16 nlh);
          Some (0, Some (cstr (drop 16 nlh))) } })"

definition rt_main :: "int \<Rightarrow> u32 \<Rightarrow> byte list \<Rightarrow> int \<Rightarrow> (u32 \<Rightarrow> byte list option) \<Rightarrow> route_info
    \<Rightarrow> byte list \<Rightarrow> int \<Rightarrow> byte list \<Rightarrow> (int \<times> nl_out list) option" where
  "rt_main sd pid obj ret_val ifn stack old len received =
     (if sd < 0 then Some (1, [])
      else do {
        _ \<leftarrow> rt_send pid obj;
        if ret_val < 0 then Some (1, [])
        else do {
          (_, out) \<leftarrow> reply_msg ifn stack old len received;
          Some (0, out) } })"

text \<open>Once the socket is open, neither program gets past its request.\<close>

lemma netlink_mains_undefined:
  assumes "length obj = 16" "0 \<le> sd"
  shows "user_main sd pid obj ret_val answer = None" "rt_main sd pid obj ret_val ifn stack old len received = None"
  using assms by (auto simp: user_main_def rt_main_def nl_request_def rt_send_def st16_eq st32_eq
      st_bytes_def ld_bytes_def)

section \<open>Properties\<close>


definition example_route :: route_msg where
  "example_route = \<lparr>rm_hdr = replicate 10 0, rm_fixed = [2, 0, 0, 0, 254, 3, 0, 1, 0, 0, 0, 0],
     rm_attrs = [(5, [10, 0, 0, 9]), (4, [2, 0, 0, 0]), (5, [10, 0, 0, 1])]\<rparr>"

abbreviation example_stack :: route_info where
  "example_stack \<equiv> \<lparr>dst_addr = 0, src_addr = 0, gateway = 0, if_name = replicate 16 0\<rparr>"


text \<open>
  The requests do not fit their objects: both user programs hand \<open>sendmsg\<close> 8208 bytes from a
  16 byte structure, whatever it holds; and the greeting that the kernel module sends back,
  to the process whose number is in the request, is 17 bytes without a terminator.
\<close>

lemma netlink_objects_overrun:
  assumes "length obj = 16" "terminated (drop 16 skb_data)" "ld32 skb_data 12 = Some pid"
  shows "rt_send p obj = None \<and> user_module_send p obj = None
    \<and> (\<exists>m. nl_request p obj = Some m \<and> length m = 16)
    \<and> (\<exists>payload. nl_recv_msg True skb_data = Some (Some (pid, payload))
         \<and> length payload = 17 \<and> \<not> terminated payload)
    \<and> nl_recv_msg False skb_data = Some None"
proof -
  have "\<exists>m. nl_request p obj = Some m \<and> length m = 16"
    using assms(1) by (simp add: nl_request_def st16_eq st32_eq)
  then show ?thesis
    using assms(2,3)
    by (auto simp: rt_send_def user_module_send_def ld_bytes_def st_bytes_def nl_recv_msg_def strlen_eq
        strncpy_eq kernel_greeting_def)
qed

lemma netlink_objects_overrun_witness:
  "\<exists>payload. nl_recv_msg True (replicate 12 0 @ [7, 0, 0, 0, 104, 0]) = Some (Some (7, payload))
     \<and> \<not> terminated payload"
  using netlink_objects_overrun [of "replicate 16 0" "replicate 12 0 @ [7, 0, 0, 0, 104, 0]" 7 1]
  by (auto simp: ld32_def ld8_def nth_append word32_of_def)

end
