(* ===== verification/FileManager.thy ===== *)
theory FileManager
  imports Prelude
begin

text \<open>
  The two-panel file manager of text\_manager: print\_files.c, navigate.c, ui.c and main.c.
  The screen library and the file system are parameters: \<open>rows\<close> is \<^verbatim>\<open>getmaxy\<close> of a panel,
  \<open>dir\<close> lists a directory (\<^const>\<open>None\<close> where \<open>opendir\<close> fails), \<open>chdir\<close> gives the working directory
  that a path leads to from the current one. Key presses are a list of key codes; a run that
  has used them all up waits for the next one. Drawing is the list of rows that a panel shows.
  The entries are kept by value, although the code points into the memory of a directory
  stream that it has closed.
\<close>

section \<open>Panels\<close>

record dirent =
  d_name :: "byte list"
  d_type :: nat

record field =
  current_path :: "byte list"
  current_region :: int
  current_line :: int

type_synonym dir_fun = "byte list \<Rightarrow> dirent list option"
type_synonym chdir_fun = "byte list \<Rightarrow> byte list \<Rightarrow> byte list option"

abbreviation (input) WINDOW_COUNT :: nat where "WINDOW_COUNT \<equiv> 2"
abbreviation (input) PATH_SIZE :: nat where "PATH_SIZE \<equiv> 2048"

text \<open>\<^verbatim>\<open>strcat\<close> into the 2048 bytes of a path.\<close>

definition path_cat :: "byte list \<Rightarrow> byte list \<Rightarrow> byte list option" where
  "path_cat p s = (if length p + length s < PATH_SIZE then Some (p @ s) else None)"

text \<open>\<open>clear_path\<close>: the new working directory, which is also the new path.\<close>

definition clear_path :: "chdir_fun \<Rightarrow> byte list \<Rightarrow> byte list \<Rightarrow> byte list option" where
  "clear_path chdir cwd path =
     (let cwd = (case chdir cwd path of Some p \<Rightarrow> p | None \<Rightarrow> cwd)
      in if length cwd < PATH_SIZE then Some cwd else None)"

section \<open>Listing a panel\<close>

datatype style = Selected | Directory | Plain

text \<open>
  The array of entry pointers has a fixed size; unset elements are \<^const>\<open>None\<close>. The reading loop stores
  every entry and returns the index of the last one, \<open>-1\<close> when there is none.
\<close>

fun read_entries :: "dirent list \<Rightarrow> dirent option list \<Rightarrow> int \<Rightarrow> (int \<times> dirent option list) option" where
  "read_entries [] d i = Some (i, d)"
| "read_entries (e # es) d i =
     (if nat (i + 1) < length d then read_entries es (d[nat (i + 1) := Some e]) (i + 1) else None)"

definition entry :: "dirent option list \<Rightarrow> int \<Rightarrow> dirent option" where
  "entry d i = (if 0 \<le> i \<and> nat i < length d then d ! nat i else None)"

text \<open>The printing loop; \<open>todo\<close> is the number of screen rows left.\<close>

fun print_rows :: "dirent option list \<Rightarrow> field \<Rightarrow> int \<Rightarrow> nat \<Rightarrow> int \<Rightarrow> (style \<times> byte list) list option" where
  "print_rows d f file_count 0 i = Some []"
| "print_rows d f file_count (Suc todo) i =
     (if i = file_count then Some []
      else do {
        e \<leftarrow> entry d i;
        rest \<leftarrow> print_rows d f file_count todo (i + 1);
        Some ((if current_line f = i - current_region f then Selected
               else if d_type e = 4 then Directory else Plain, d_name e) # rest) })"

definition print_files :: "nat \<Rightarrow> dir_fun \<Rightarrow> field \<Rightarrow> dirent option list
    \<Rightarrow> (int \<times> dirent option list \<times> (style \<times> byte list) list) option" where
  "print_files rows dir f d = do {
     (file_count, d) \<leftarrow> (case dir (current_path f) of
        None \<Rightarrow> Some (-1, d) | Some es \<Rightarrow> read_entries es d (-1));
     shown \<leftarrow> print_rows d f file_count rows (current_region f);
     Some (file_count, d, shown) }"

section \<open>The popup\<close>

text \<open>Redrawing both panels, with an array of its own.\<close>

definition total_refresh :: "nat \<Rightarrow> dir_fun \<Rightarrow> field list \<Rightarrow> unit option" where
  "total_refresh rows dir fs = do {
     _ \<leftarrow> print_files rows dir (fs ! 0) (replicate 2048 None);
     _ \<leftarrow> print_files rows dir (fs ! 1) (replicate 2048 None);
     Some () }"

text \<open>
  The button loop of \<open>popup\<close>: the key is cut to a \<^verbatim>\<open>char\<close>. The answer is the button, or none while
  the keys are used up, and the keys that are left.
\<close>

fun popup :: "int list \<Rightarrow> int \<Rightarrow> int option \<times> int list" where
  "popup [] current_button = (None, [])"
| "popup (k # ks) current_button =
     (if k mod 256 = 9 then popup ks ((current_button + 1) mod 2)
      else if k mod 256 = 10 then (Some current_button, ks)
      else popup ks current_button)"

section \<open>Navigation\<close>

record manager =
  panels :: "field list"
  current_window :: nat
  cwd :: "byte list"
  entries :: "dirent option list"
  file_count :: int

abbreviation (input) KEY_DOWN :: int where "KEY_DOWN \<equiv> 258"
abbreviation (input) KEY_UP :: int where "KEY_UP \<equiv> 259"
abbreviation (input) KEY_NPAGE :: int where "KEY_NPAGE \<equiv> 338"
abbreviation (input) KEY_PPAGE :: int where "KEY_PPAGE \<equiv> 339"

definition files_per_region :: "int \<Rightarrow> int \<Rightarrow> int" where
  "files_per_region maxy fc =
     (let n = (if fc < maxy then fc else maxy - 1) in if fc = n then n - 1 else n)"

definition key_down :: "int \<Rightarrow> int \<Rightarrow> field \<Rightarrow> field" where
  "key_down maxy fc f =
     (let fpr = files_per_region maxy fc;
          f = f\<lparr>current_line := current_line f + 1\<rparr>
      in if current_line f > maxy - 1 then
           let f = f\<lparr>current_line := maxy - 1, current_region := current_region f + 1\<rparr>
           in if current_region f > fc - maxy then
                let f = f\<lparr>current_region := fc - maxy\<rparr>;
                    f = (if current_region f < 0 then f\<lparr>current_region := 0\<rparr> else f)
                in f\<lparr>current_line := min maxy fpr\<rparr>
              else f
         else if current_line f > fpr then f\<lparr>current_line := fpr\<rparr>
         else f)"

definition key_up :: "field \<Rightarrow> field" where
  "key_up f =
     (let f = f\<lparr>current_line := current_line f - 1\<rparr>
      in if current_line f < 0 then
           let f = f\<lparr>current_line := 0, current_region := current_region f - 1\<rparr>
           in if current_region f < 0 then f\<lparr>current_region := 0\<rparr> else f
         else f)"

definition key_npage :: "int \<Rightarrow> int \<Rightarrow> field \<Rightarrow> field" where
  "key_npage maxy fc f =
     (let fpr = files_per_region maxy fc;
          f = f\<lparr>current_region := current_region f + maxy\<rparr>
      in if current_region f > fc - maxy then
           let f = f\<lparr>current_region := fc - maxy\<rparr>;
               f = (if current_region f < 0 then f\<lparr>current_region := 0\<rparr> else f)
           in f\<lparr>current_line := min maxy fpr\<rparr>
         else f)"

definition key_ppage :: "int \<Rightarrow> field \<Rightarrow> field" where
  "key_ppage maxy f =
     (let f = f\<lparr>current_region := current_region f - maxy\<rparr>
      in if current_region f < 0 then f\<lparr>current_region := 0, current_line := 0\<rparr> else f)"

text \<open>
  ENTER and \<^verbatim>\<open>l\<close>: whether a directory is selected is looked up at the screen line, the name at
  the entry. The results are the panel and the working directory.
\<close>

definition key_enter :: "chdir_fun \<Rightarrow> byte list \<Rightarrow> dirent option list \<Rightarrow> field \<Rightarrow> (field \<times> byte list) option" where
  "key_enter chdir wd d f = do {
     e \<leftarrow> entry d (current_line f);
     if d_type e = 4 then do {
       p \<leftarrow> path_cat (current_path f) [47];
       e \<leftarrow> entry d (current_region f + current_line f);
       p \<leftarrow> path_cat p (d_name e);
       p \<leftarrow> clear_path chdir wd p;
       Some (f\<lparr>current_path := p, current_region := 0, current_line := 0\<rparr>, p)
     } else Some (f, wd) }"

definition key_parent :: "chdir_fun \<Rightarrow> byte list \<Rightarrow> field \<Rightarrow> (field \<times> byte list) option" where
  "key_parent chdir wd f = do {
     p \<leftarrow> path_cat (current_path f) [47, 46, 46];
     p \<leftarrow> clear_path chdir wd p;
     Some (f\<lparr>current_path := p, current_region := 0, current_line := 0\<rparr>, p) }"

text \<open>
  One round of the loop of \<open>navigate\<close>, without the reading of the key: the new state and the keys
  that are left; the popup of \<^verbatim>\<open>y\<close> takes keys of its own, and the copy behind it is never
  reached. The second component is false when the popup still waits.
\<close>

definition nav_key :: "nat \<Rightarrow> dir_fun \<Rightarrow> chdir_fun \<Rightarrow> manager \<Rightarrow> int \<Rightarrow> int list
    \<Rightarrow> (manager \<times> bool \<times> int list) option" where
  "nav_key rows dir chdir s c ks = do {
     let maxy = int rows;
     let f = panels s ! current_window s;
     let fc = file_count s;
     let upd = (\<lambda>f. s\<lparr>panels := (panels s)[current_window s := f]\<rparr>);
     (s, go, ks) \<leftarrow>
       (if c = KEY_DOWN \<or> c = 106 then Some (upd (key_down maxy fc f), True, ks)
        else if c = KEY_UP \<or> c = 107 then Some (upd (key_up f), True, ks)
        else if c = KEY_NPAGE \<or> c = 100 then Some (upd (key_npage maxy fc f), True, ks)
        else if c = KEY_PPAGE \<or> c = 117 then Some (upd (key_ppage maxy f), True, ks)
        else if c = 10 \<or> c = 108 then do {
          (f, wd) \<leftarrow> key_enter chdir (cwd s) (entries s) f;
          Some ((upd f)\<lparr>cwd := wd\<rparr>, True, ks) }
        else if c = 104 then do {
          (f, wd) \<leftarrow> key_parent chdir (cwd s) f;
          Some ((upd f)\<lparr>cwd := wd\<rparr>, True, ks) }
        else if c = 121 then
          (case popup ks 1 of
             (None, ks) \<Rightarrow> Some (s, False, ks)
           | (Some b, ks) \<Rightarrow> do { _ \<leftarrow> total_refresh rows dir (panels s); Some (s, True, ks) })
        else if c = 9 then
          Some (s\<lparr>current_window := (current_window s + 1) mod WINDOW_COUNT\<rparr>, True, ks)
        else Some (s, True, ks));
     if \<not> go then Some (s, False, ks)
     else do {
       (fc, d, _) \<leftarrow> print_files rows dir (panels s ! current_window s) (entries s);
       Some (s\<lparr>file_count := fc, entries := d\<rparr>, True, ks) } }"

text \<open>The popup never leaves more keys than it was given.\<close>

lemma popup_length: "length (snd (popup ks b)) \<le> length ks"
  by (induction ks b rule: popup.induct) auto

lemma nav_key_length: "nav_key rows dir chdir s c ks = Some (s', go, ks') \<Longrightarrow> length ks' \<le> length ks"
  using popup_length [of ks 1]
  by (auto simp: nav_key_def Let_def split: bind_splits if_splits prod.splits option.splits)

lemma popup_suffix: "set (snd (popup ks b)) \<subseteq> set ks"
  by (induction ks b rule: popup.induct) auto

lemma nav_key_suffix: "nav_key rows dir chdir s c ks = Some (s', go, ks') \<Longrightarrow> set ks' \<subseteq> set ks"
  using popup_suffix [of ks 1]
  by (auto simp: nav_key_def Let_def split: bind_splits if_splits prod.splits option.splits)

text \<open>The loop of \<open>navigate\<close>; the flag tells that the user has quit.\<close>

function navigate_loop :: "nat \<Rightarrow> dir_fun \<Rightarrow> chdir_fun \<Rightarrow> int list \<Rightarrow> manager \<Rightarrow> (manager \<times> bool) option" where
  "navigate_loop rows dir chdir ks s =
     (case ks of
        [] \<Rightarrow> Some (s, False)
      | c # ks \<Rightarrow> (case nav_key rows dir chdir s c ks of
          None \<Rightarrow> None
        | Some (s, go, ks) \<Rightarrow>
            if \<not> go then Some (s, False)
            else if c = 113 then Some (s, True)
            else navigate_loop rows dir chdir ks s))"
  by pat_completeness auto
termination
  by (relation "measure (\<lambda>(rows, dir, chdir, ks, s). length ks)")
    (auto dest!: nav_key_length)

declare navigate_loop.simps [simp del]

text \<open>\<open>main\<close> starts both panels in one directory; \<open>navigate\<close> prints both, then the first again.\<close>

definition start_path :: "byte list" where
  "start_path = [47, 104, 111, 109, 101, 47, 101, 108, 116, 101, 120]"

definition start_field :: field where
  "start_field = \<lparr>current_path = start_path, current_region = 0, current_line = 0\<rparr>"

definition navigate :: "nat \<Rightarrow> dir_fun \<Rightarrow> chdir_fun \<Rightarrow> byte list \<Rightarrow> int list \<Rightarrow> (manager \<times> bool) option" where
  "navigate rows dir chdir wd ks = do {
     let fs = replicate WINDOW_COUNT start_field;
     (_, d, _) \<leftarrow> print_files rows dir (fs ! 0) (replicate 256 None);
     (_, d, _) \<leftarrow> print_files rows dir (fs ! 1) d;
     (fc, d, _) \<leftarrow> print_files rows dir (fs ! 0) d;
     navigate_loop rows dir chdir ks
       \<lparr>panels = fs, current_window = 0, cwd = wd, entries = d, file_count = fc\<rparr> }"

section \<open>The cursor\<close>

text \<open>
  A panel is in order for a directory with \<open>fc\<close> shown entries when the region and the line lie on
  the screen and in the directory; its cursor is the entry that is selected.
\<close>

definition field_ok :: "int \<Rightarrow> int \<Rightarrow> field \<Rightarrow> bool" where
  "field_ok maxy fc f \<longleftrightarrow> 0 \<le> current_region f \<and> 0 \<le> current_line f \<and> current_line f < maxy
     \<and> current_region f \<le> max 0 (fc - maxy) \<and> current_region f + current_line f < fc"

definition cursor :: "field \<Rightarrow> int" where
  "cursor f = current_region f + current_line f"

lemmas key_defs = key_down_def key_up_def key_npage_def key_ppage_def files_per_region_def Let_def

lemma keys_path [simp]:
  "current_path (key_down m fc f) = current_path f" "current_path (key_up f) = current_path f"
  "current_path (key_npage m fc f) = current_path f" "current_path (key_ppage m f) = current_path f"
  by (simp_all add: key_defs)

lemma key_down_ok:
  assumes "0 < maxy" "field_ok maxy fc f"
  shows "field_ok maxy fc (key_down maxy fc f)" "cursor (key_down maxy fc f) = min (cursor f + 1) (fc - 1)"
  using assms by (auto simp: field_ok_def cursor_def key_defs)

lemma key_up_ok:
  assumes "0 < maxy" "field_ok maxy fc f"
  shows "field_ok maxy fc (key_up f)" "cursor (key_up f) = max (cursor f - 1) 0"
  using assms by (auto simp: field_ok_def cursor_def key_defs)

lemma key_npage_ok:
  assumes "0 < maxy" "field_ok maxy fc f"
  shows "field_ok maxy fc (key_npage maxy fc f)"
    "cursor (key_npage maxy fc f) =
       (if current_region f + maxy > fc - maxy then fc - 1 else cursor f + maxy)"
  using assms by (auto simp: field_ok_def cursor_def key_defs)

lemma key_ppage_ok:
  assumes "0 < maxy" "field_ok maxy fc f"
  shows "field_ok maxy fc (key_ppage maxy f)"
    "cursor (key_ppage maxy f) = (if current_region f < maxy then 0 else cursor f - maxy)"
  using assms by (auto simp: field_ok_def cursor_def key_defs)

section \<open>What is listed and shown\<close>

lemma read_entries_eq:
  "-1 \<le> i \<Longrightarrow> nat (i + 1) + length es \<le> length d \<Longrightarrow>
   \<exists>d'. read_entries es d i = Some (i + int (length es), d') \<and> length d' = length d
     \<and> (\<forall>j < length es. d' ! (nat (i + 1) + j) = Some (es ! j))
     \<and> (\<forall>j < nat (i + 1). d' ! j = d ! j)"
proof (induction es d i rule: read_entries.induct)
  case (2 e es d i)
  have n: "nat (i + 1 + 1) = Suc (nat (i + 1))" using "2.prems"(1) by simp
  have "nat (i + 1) < length d" using "2.prems"(2) by simp
  with 2 n obtain d' where d': "read_entries es (d[nat (i + 1) := Some e]) (i + 1) =
      Some (i + 1 + int (length es), d')" "length d' = length d"
    "\<forall>j < length es. d' ! (Suc (nat (i + 1)) + j) = Some (es ! j)"
    "\<forall>j < Suc (nat (i + 1)). d' ! j = d[nat (i + 1) := Some e] ! j" by auto
  have "d' ! (nat (i + 1) + j) = Some ((e # es) ! j)" if "j < length (e # es)" for j
    using that d'(3,4) \<open>nat (i + 1) < length d\<close> by (cases j) auto
  then show ?case using d' \<open>nat (i + 1) < length d\<close> by auto
qed auto

definition row :: "dirent list \<Rightarrow> field \<Rightarrow> nat \<Rightarrow> style \<times> byte list" where
  "row es f j = (if current_line f = int j - current_region f then Selected
     else if d_type (es ! j) = 4 then Directory else Plain, d_name (es ! j))"

definition loaded :: "dirent option list \<Rightarrow> dirent list \<Rightarrow> bool" where
  "loaded d es \<longleftrightarrow> length es \<le> length d \<and> (\<forall>j < length es. d ! j = Some (es ! j))"

lemma entry_loaded: "loaded d es \<Longrightarrow> 0 \<le> i \<Longrightarrow> i < int (length es) \<Longrightarrow> entry d i = Some (es ! nat i)"
  by (auto simp: loaded_def entry_def nat_less_iff)

lemma print_rows_eq:
  "loaded d es \<Longrightarrow> n < length es \<Longrightarrow> i \<le> n \<Longrightarrow>
   print_rows d f (int n) todo (int i) = Some (map (row es f) [i ..< min n (i + todo)])"
proof (induction todo arbitrary: i)
  case (Suc todo)
  show ?case
  proof (cases "i = n")
    case False
    then have i: "i < n" using Suc.prems by simp
    have "entry d (int i) = Some (es ! i)" using entry_loaded [OF Suc.prems(1), of "int i"] Suc.prems(2) i by simp
    moreover have "print_rows d f (int n) todo (1 + int i) = Some (map (row es f) [Suc i ..< min n (Suc i + todo)])"
      using Suc.IH [of "Suc i"] Suc.prems i by simp
    moreover have "[i ..< min n (i + Suc todo)] = i # [Suc i ..< min n (Suc i + todo)]"
      using i by (simp add: upt_conv_Cons)
    ultimately show ?thesis using i by (simp add: row_def add.commute)
  qed simp
qed simp

lemma print_files_eq:
  assumes "dir (current_path f) = Some es" "0 < length es" "length es \<le> length d"
    and "0 \<le> current_region f" "current_region f < int (length es)"
  shows "\<exists>d'. print_files rows dir f d = Some (int (length es) - 1, d',
      map (row es f) [nat (current_region f) ..< min (length es - 1) (nat (current_region f) + rows)])
    \<and> length d' = length d \<and> loaded d' es"
proof -
  obtain d' where d': "read_entries es d (-1) = Some (-1 + int (length es), d')" "length d' = length d"
    "\<forall>j < length es. d' ! j = Some (es ! j)"
    using read_entries_eq [of "-1" es d] assms(3) by auto
  then have l: "loaded d' es" using assms(3) by (simp add: loaded_def)
  have "int (length es - 1) = int (length es) - 1" using assms(2) by (cases es) auto
  then show ?thesis
    using print_rows_eq [OF l, of "length es - 1" "nat (current_region f)" f rows] d' l assms
    by (simp add: print_files_def)
qed

section \<open>Well-behaved surroundings\<close>

text \<open>
  Every directory that a panel can be in can be listed, has at least its two dot entries and no more
  than the array holds; names have at most 255 bytes and working directories at most 1024.
\<close>

definition files_ok :: "dir_fun \<Rightarrow> chdir_fun \<Rightarrow> bool" where
  "files_ok dir chdir \<longleftrightarrow>
     (\<forall>p. \<exists>es. dir p = Some es \<and> 2 \<le> length es \<and> length es \<le> 256 \<and> (\<forall>e \<in> set es. length (d_name e) \<le> 255))
     \<and> (\<forall>wd p q. chdir wd p = Some q \<longrightarrow> length q \<le> 1024)"

definition shown_count :: "dir_fun \<Rightarrow> field \<Rightarrow> int" where
  "shown_count dir f = int (length (the (dir (current_path f)))) - 1"

definition panel_ok :: "nat \<Rightarrow> dir_fun \<Rightarrow> field \<Rightarrow> bool" where
  "panel_ok rows dir f \<longleftrightarrow> field_ok (int rows) (shown_count dir f) f \<and> length (current_path f) \<le> 1024"

definition panels_ok :: "nat \<Rightarrow> dir_fun \<Rightarrow> manager \<Rightarrow> bool" where
  "panels_ok rows dir s \<longleftrightarrow> length (panels s) = 2 \<and> current_window s < 2 \<and> length (entries s) = 256
     \<and> length (cwd s) \<le> 1024 \<and> (\<forall>f \<in> set (panels s). panel_ok rows dir f)"

definition manager_ok :: "nat \<Rightarrow> dir_fun \<Rightarrow> manager \<Rightarrow> bool" where
  "manager_ok rows dir s \<longleftrightarrow> panels_ok rows dir s
     \<and> file_count s = shown_count dir (panels s ! current_window s)
     \<and> loaded (entries s) (the (dir (current_path (panels s ! current_window s))))"

lemma files_okD:
  assumes "files_ok dir chdir"
  obtains es where "dir p = Some es" "2 \<le> length es" "length es \<le> 256" "\<forall>e \<in> set es. length (d_name e) \<le> 255"
  using assms unfolding files_ok_def by metis

lemma panel_listed:
  assumes "files_ok dir chdir" "panel_ok rows dir f" "256 \<le> length d"
  shows "\<exists>d'. print_files rows dir f d = Some (shown_count dir f, d',
      map (row (the (dir (current_path f))) f)
        [nat (current_region f) ..< min (nat (shown_count dir f)) (nat (current_region f) + rows)])
    \<and> length d' = length d \<and> loaded d' (the (dir (current_path f)))"
proof -
  obtain es where es: "dir (current_path f) = Some es" "2 \<le> length es" "length es \<le> 256"
    using files_okD [OF assms(1)] by metis
  have "0 \<le> current_region f" "current_region f < int (length es)" "es \<noteq> []"
    using assms(2) es by (auto simp: panel_ok_def field_ok_def shown_count_def)
  then show ?thesis
    using print_files_eq [of dir f es d rows] es assms(3) by (simp add: shown_count_def nat_diff_distrib')
qed

lemma refreshed:
  assumes "files_ok dir chdir" "panels_ok rows dir s"
  shows "\<exists>fc d shown. print_files rows dir (panels s ! current_window s) (entries s) = Some (fc, d, shown)
    \<and> manager_ok rows dir (s\<lparr>file_count := fc, entries := d\<rparr>)"
proof -
  have "panel_ok rows dir (panels s ! current_window s)" "length (entries s) = 256"
    using assms(2) by (auto simp: panels_ok_def)
  with panel_listed [OF assms(1) this(1), of "entries s"] assms(2) show ?thesis
    by (auto simp: manager_ok_def panels_ok_def)
qed

lemma path_catD: "path_cat p s = Some q \<longleftrightarrow> length p + length s < 2048 \<and> q = p @ s"
  by (auto simp: path_cat_def)

lemma clear_path_ok:
  assumes "files_ok dir chdir" "length wd \<le> 1024"
  shows "\<exists>p. clear_path chdir wd path = Some p \<and> length p \<le> 1024"
  using assms by (fastforce simp: clear_path_def files_ok_def split: option.splits)

lemma fresh_panel:
  assumes "files_ok dir chdir" "0 < rows" "length p \<le> 1024"
  shows "panel_ok rows dir (f\<lparr>current_path := p, current_region := 0, current_line := 0\<rparr>)"
proof -
  obtain es where "dir p = Some es" "2 \<le> length es" using files_okD [OF assms(1)] by metis
  then show ?thesis using assms(2,3) by (simp add: panel_ok_def field_ok_def shown_count_def)
qed

lemma key_enter_ok:
  assumes "files_ok dir chdir" "0 < rows" "panel_ok rows dir f" "loaded d (the (dir (current_path f)))"
    and "length wd \<le> 1024"
  shows "\<exists>f' wd'. key_enter chdir wd d f = Some (f', wd') \<and> panel_ok rows dir f' \<and> length wd' \<le> 1024"
proof -
  let ?es = "the (dir (current_path f))"
  have f: "0 \<le> current_region f" "0 \<le> current_line f" "current_region f + current_line f < int (length ?es)"
    "length (current_path f) \<le> 1024"
    using assms(3) by (auto simp: panel_ok_def field_ok_def shown_count_def)
  obtain es where es: "dir (current_path f) = Some es" "\<forall>e \<in> set es. length (d_name e) \<le> 255"
    using files_okD [OF assms(1)] by metis
  let ?j = "nat (current_region f + current_line f)"
  have e: "entry d (current_line f) = Some (es ! nat (current_line f))"
    "entry d (current_region f + current_line f) = Some (es ! ?j)"
    using f es entry_loaded [OF assms(4)] by simp_all
  have "?j < length es" using f es by simp
  then have "length (d_name (es ! ?j)) \<le> 255" using es by simp
  moreover obtain p where "clear_path chdir wd (current_path f @ [47] @ d_name (es ! ?j)) = Some p" "length p \<le> 1024"
    using clear_path_ok [OF assms(1,5)] by blast
  ultimately show ?thesis
    using f(4) fresh_panel [OF assms(1,2), of p f] assms(3,5) e
    by (auto simp: key_enter_def path_cat_def)
qed

lemma key_parent_ok:
  assumes "files_ok dir chdir" "0 < rows" "panel_ok rows dir f" "length wd \<le> 1024"
  shows "\<exists>f' wd'. key_parent chdir wd f = Some (f', wd') \<and> panel_ok rows dir f' \<and> length wd' \<le> 1024"
proof -
  obtain p where "clear_path chdir wd (current_path f @ [47, 46, 46]) = Some p" "length p \<le> 1024"
    using clear_path_ok [OF assms(1,4)] by blast
  then show ?thesis
    using fresh_panel [OF assms(1,2), of p f] assms(3)
    by (auto simp: key_parent_def path_cat_def panel_ok_def)
qed

lemma total_refresh_ok:
  assumes "files_ok dir chdir" "panels_ok rows dir s"
  shows "total_refresh rows dir (panels s) = Some ()"
proof -
  have "panel_ok rows dir (panels s ! 0)" "panel_ok rows dir (panels s ! 1)"
    using assms(2) by (auto simp: panels_ok_def)
  then show ?thesis
    using panel_listed [OF assms(1), of rows "panels s ! 0" "replicate 2048 None"]
      panel_listed [OF assms(1), of rows "panels s ! 1" "replicate 2048 None"]
    by (auto simp: total_refresh_def)
qed

lemma panels_upd:
  assumes "panels_ok rows dir s" "panel_ok rows dir f" "length wd \<le> 1024"
  shows "panels_ok rows dir (s\<lparr>panels := (panels s)[current_window s := f], cwd := wd\<rparr>)"
    "panels_ok rows dir (s\<lparr>panels := (panels s)[current_window s := f]\<rparr>)"
  using assms set_update_subset_insert [of "panels s" "current_window s" f]
  by (auto simp: panels_ok_def)

lemma keys_ok:
  assumes "0 < rows" "panel_ok rows dir f"
  shows "panel_ok rows dir (key_down (int rows) (shown_count dir f) f)"
    "panel_ok rows dir (key_up f)"
    "panel_ok rows dir (key_npage (int rows) (shown_count dir f) f)"
    "panel_ok rows dir (key_ppage (int rows) f)"
  using assms key_down_ok(1) [of "int rows"] key_up_ok(1) [of "int rows"]
    key_npage_ok(1) [of "int rows"] key_ppage_ok(1) [of "int rows"]
  by (simp_all add: panel_ok_def shown_count_def)

text \<open>The end of a round: the focused panel is listed again.\<close>

lemma listed_again:
  assumes "files_ok dir chdir" "panels_ok rows dir s1"
  shows "\<exists>s' go ks'. (do { (s, go, ks) \<leftarrow> Some (s1, True, ks1);
       if \<not> go then Some (s, False, ks)
       else do { (fc, d, _) \<leftarrow> print_files rows dir (panels s ! current_window s) (entries s);
                 Some (s\<lparr>file_count := fc, entries := d\<rparr>, True, ks) } }) = Some (s', go, ks')
      \<and> manager_ok rows dir s'"
  using refreshed [OF assms] by auto

lemma nav_key_ok:
  assumes "files_ok dir chdir" "0 < rows" "manager_ok rows dir s"
  shows "\<exists>s' go ks'. nav_key rows dir chdir s c ks = Some (s', go, ks') \<and> manager_ok rows dir s'"
proof -
  let ?f = "panels s ! current_window s"
  have s: "panels_ok rows dir s" "file_count s = shown_count dir ?f"
    "loaded (entries s) (the (dir (current_path ?f)))" "length (cwd s) \<le> 1024"
    using assms(3) by (simp_all add: manager_ok_def panels_ok_def)
  have f: "panel_ok rows dir ?f" using s(1) by (auto simp: panels_ok_def)
  obtain f1 wd1 where enter: "key_enter chdir (cwd s) (entries s) ?f = Some (f1, wd1)"
    "panel_ok rows dir f1" "length wd1 \<le> 1024"
    using key_enter_ok [OF assms(1,2) f s(3,4)] by blast
  obtain f2 wd2 where parent: "key_parent chdir (cwd s) ?f = Some (f2, wd2)"
    "panel_ok rows dir f2" "length wd2 \<le> 1024"
    using key_parent_ok [OF assms(1,2) f s(4)] by blast
  have tab: "panels_ok rows dir (s\<lparr>current_window := (current_window s + 1) mod 2\<rparr>)"
    using s(1) by (simp add: panels_ok_def)
  note upd = panels_upd [OF s(1)]
  note step = listed_again [OF assms(1)]
  consider "c = KEY_DOWN \<or> c = 106" | "c = KEY_UP \<or> c = 107" | "c = KEY_NPAGE \<or> c = 100"
    | "c = KEY_PPAGE \<or> c = 117" | "c = 10 \<or> c = 108" | "c = 104" | "c = 121" | "c = 9"
    | "c \<notin> {KEY_DOWN, 106, KEY_UP, 107, KEY_NPAGE, 100, KEY_PPAGE, 117, 10, 108, 104, 121, 9}"
    by auto
  then show ?thesis
  proof cases
    case 5
    then show ?thesis using step [OF upd(1) [OF enter(2,3)]] enter(1)
      by (auto simp: nav_key_def Let_def)
  next
    case 6
    then show ?thesis using step [OF upd(1) [OF parent(2,3)]] parent(1)
      by (auto simp: nav_key_def Let_def)
  next
    case 7
    obtain b ks1 where b: "popup ks 1 = (b, ks1)" by fastforce
    show ?thesis
    proof (cases b)
      case None
      then show ?thesis using 7 b assms(3) by (auto simp: nav_key_def Let_def)
    next
      case (Some x)
      then show ?thesis using 7 b step [OF s(1), of ks1] total_refresh_ok [OF assms(1) s(1)]
        by (simp add: nav_key_def Let_def)
    qed
  next
    case 9
    then show ?thesis using step [OF s(1), of ks] by (simp add: nav_key_def Let_def)
  qed (use step [OF upd(2) [OF _ s(4)]] step [OF tab] keys_ok [OF assms(2) f] s(2)
       in \<open>auto simp: nav_key_def Let_def\<close>)
qed

lemma navigate_loop_ok:
  assumes "files_ok dir chdir" "0 < rows"
  shows "manager_ok rows dir s \<Longrightarrow>
    \<exists>s' q. navigate_loop rows dir chdir ks s = Some (s', q) \<and> manager_ok rows dir s' \<and> (q \<longrightarrow> 113 \<in> set ks)"
proof (induction "length ks" arbitrary: ks s rule: less_induct)
  case less
  show ?case
  proof (cases ks)
    case Nil
    then show ?thesis using less.prems by (subst navigate_loop.simps) auto
  next
    case (Cons c ks1)
    obtain s1 go ks2 where s1: "nav_key rows dir chdir s c ks1 = Some (s1, go, ks2)" "manager_ok rows dir s1"
      using nav_key_ok [OF assms less.prems] by blast
    have "length ks2 < length ks" using nav_key_length [OF s1(1)] Cons by simp
    from less.hyps [OF this s1(2)] obtain s' q where
      s': "navigate_loop rows dir chdir ks2 s1 = Some (s', q)" "manager_ok rows dir s'" "q \<longrightarrow> 113 \<in> set ks2"
      by blast
    have "set ks2 \<subseteq> set ks1" using nav_key_suffix [OF s1(1)] .
    then show ?thesis using s1 s' Cons by (subst navigate_loop.simps) auto
  qed
qed

section \<open>Properties\<close>

text \<open>
  For every sequence of key presses, with a screen of at least one row and directories that
  can be listed: the file manager never reads or writes outside its arrays and paths, and
  afterwards both panels have their region and their selected line on the screen and inside
  the directory; it ends only by \<^verbatim>\<open>q\<close>.
\<close>

lemma navigate_safe:
  assumes "files_ok dir chdir" "0 < rows" "length wd \<le> 1024"
  shows "\<exists>s q. navigate rows dir chdir wd ks = Some (s, q)
    \<and> (\<forall>f \<in> set (panels s). field_ok (int rows) (shown_count dir f) f)
    \<and> (q \<longrightarrow> 113 \<in> set ks)"
proof -
  have p: "panel_ok rows dir start_field"
    using fresh_panel [OF assms(1,2), of start_path start_field] by (simp add: start_field_def start_path_def)
  obtain fc d1 sh1 where d1: "print_files rows dir start_field (replicate 256 None) = Some (fc, d1, sh1)" "length d1 = 256"
    using panel_listed [OF assms(1) p, of "replicate 256 None"] by auto
  obtain d2 sh2 where d2: "print_files rows dir start_field d1 = Some (shown_count dir start_field, d2, sh2)" "length d2 = 256"
    using panel_listed [OF assms(1) p, of d1] d1(2) by auto
  obtain d3 sh3 where d3: "print_files rows dir start_field d2 = Some (shown_count dir start_field, d3, sh3)"
    "length d3 = 256" "loaded d3 (the (dir (current_path start_field)))"
    using panel_listed [OF assms(1) p, of d2] d2(2) by auto
  let ?s = "\<lparr>panels = [start_field, start_field], current_window = 0, cwd = wd, entries = d3,
      file_count = shown_count dir start_field\<rparr>"
  have "manager_ok rows dir ?s" using p d3 assms(3) by (simp add: manager_ok_def panels_ok_def)
  from navigate_loop_ok [OF assms(1,2) this, of ks] d1 d2 d3 show ?thesis
    by (auto simp: navigate_def Let_def eval_nat_numeral manager_ok_def panels_ok_def panel_ok_def)
qed

definition example_entries :: "dirent list" where
  "example_entries = [\<lparr>d_name = [46], d_type = 4\<rparr>, \<lparr>d_name = [46, 46], d_type = 4\<rparr>,
     \<lparr>d_name = [97], d_type = 8\<rparr>, \<lparr>d_name = [98], d_type = 4\<rparr>, \<lparr>d_name = [99], d_type = 8\<rparr>]"

abbreviation example_dir :: dir_fun where "example_dir \<equiv> \<lambda>_. Some example_entries"
abbreviation example_chdir :: chdir_fun where "example_chdir \<equiv> \<lambda>_ p. if length p < 50 then Some p else None"

lemma example_files_ok: "files_ok example_dir example_chdir"
  by (auto simp: files_ok_def example_entries_def)

text \<open>
  C21. The cursor is a bounded counter: in a panel that is in order, down moves it to the next
  entry and stops at the last shown one, up moves it back and stops at the first, a page down
  moves it by a screen or to the last shown entry, a page up by a screen or to the first; the
  panel stays in order.
\<close>

theorem cursor_moves:
  assumes "0 < maxy" "field_ok maxy fc f"
  shows "cursor (key_down maxy fc f) = min (cursor f + 1) (fc - 1)
    \<and> cursor (key_up f) = max (cursor f - 1) 0
    \<and> cursor (key_npage maxy fc f) = (if current_region f + maxy > fc - maxy then fc - 1 else cursor f + maxy)
    \<and> cursor (key_ppage maxy f) = (if current_region f < maxy then 0 else cursor f - maxy)
    \<and> (\<forall>g \<in> {key_down maxy fc f, key_up f, key_npage maxy fc f, key_ppage maxy f}. field_ok maxy fc g)"
  using key_down_ok [OF assms] key_up_ok [OF assms] key_npage_ok [OF assms] key_ppage_ok [OF assms]
  by simp

theorem cursor_moves_witness:
  "cursor (key_down 3 7 \<lparr>current_path = [], current_region = 1, current_line = 2\<rparr>) = 4"
  using cursor_moves [of 3 7 "\<lparr>current_path = [], current_region = 1, current_line = 2\<rparr>"]
  by (simp add: field_ok_def cursor_def)



text \<open>
  ENTER looks up whether a directory is selected at the screen line, and the name at the
  selected entry: in a scrolled panel it refuses a selected directory when another entry
  stands at that line, and tries to enter a selected file when a directory stands there.
\<close>

lemma enter_uses_screen_line:
  assumes "loaded d es" "0 \<le> current_region f" "0 \<le> current_line f"
    and "cursor f < int (length es)" "length (current_path f) + length (d_name (es ! nat (cursor f))) < 2047"
  shows "key_enter chdir wd d f =
    (if d_type (es ! nat (current_line f)) = 4
     then map_option (\<lambda>p. (f\<lparr>current_path := p, current_region := 0, current_line := 0\<rparr>, p))
            (clear_path chdir wd (current_path f @ [47] @ d_name (es ! nat (cursor f))))
     else Some (f, wd))"
proof -
  have "entry d (current_line f) = Some (es ! nat (current_line f))"
    "entry d (current_region f + current_line f) = Some (es ! nat (cursor f))"
    using assms(2-4) entry_loaded [OF assms(1)] by (simp_all add: cursor_def)
  then show ?thesis using assms(5)
    by (cases "clear_path chdir wd (current_path f @ [47] @ d_name (es ! nat (cursor f)))")
      (simp_all add: key_enter_def path_cat_def)
qed

lemma enter_uses_screen_line_witness:
  "key_enter example_chdir [] (map Some example_entries) \<lparr>current_path = [47], current_region = 1, current_line = 2\<rparr>
     = Some (\<lparr>current_path = [47], current_region = 1, current_line = 2\<rparr>, [])
   \<and> d_type (example_entries ! 3) = 4"
proof -
  have "loaded (map Some example_entries) example_entries" by (simp add: loaded_def)
  then show ?thesis
    using enter_uses_screen_line [of "map Some example_entries" example_entries
        "\<lparr>current_path = [47], current_region = 1, current_line = 2\<rparr>" example_chdir "[]"]
    by (simp add: cursor_def example_entries_def)
qed

end
