(* ===== verification/FileManagerMain.thy ===== *)
theory FileManagerMain
  imports FileManager "HOL-Library.Signed_Division"
begin

text \<open>
  \<open>main\<close> of text\_manager/main.c: the windows of the screen, then \<open>navigate\<close>. Windows belong to the
  screen library. What the program relies on is the locale \<open>screen_library\<close>: a window that has room
  is made, in the size that was asked for. The library's answer to a window without room is
  a null pointer, with which this model ends (\<^const>\<open>None\<close>). Colours and boxes are left out.
\<close>

section \<open>The windows\<close>

text \<open>The screen library: \<^verbatim>\<open>newwin\<close> on a screen, \<^verbatim>\<open>derwin\<close> in a window, and the two sizes.\<close>

record 'w screen_lib =
  newwin :: "'w \<Rightarrow> int \<Rightarrow> int \<Rightarrow> int \<Rightarrow> int \<Rightarrow> 'w option"
  derwin :: "'w \<Rightarrow> int \<Rightarrow> int \<Rightarrow> int \<Rightarrow> int \<Rightarrow> 'w option"
  getmaxy :: "'w \<Rightarrow> int"
  getmaxx :: "'w \<Rightarrow> int"

locale screen_library =
  fixes lib :: "'w screen_lib"
  assumes newwin_size: "0 < h \<Longrightarrow> 0 < w \<Longrightarrow> 0 \<le> y \<Longrightarrow> 0 \<le> x \<Longrightarrow> y + h \<le> getmaxy lib s \<Longrightarrow> x + w \<le> getmaxx lib s \<Longrightarrow>
      \<exists>p. newwin lib s h w y x = Some p \<and> getmaxy lib p = h \<and> getmaxx lib p = w"
    and derwin_size: "0 < h \<Longrightarrow> 0 < w \<Longrightarrow> 0 \<le> y \<Longrightarrow> 0 \<le> x \<Longrightarrow> y + h \<le> getmaxy lib s \<Longrightarrow> x + w \<le> getmaxx lib s \<Longrightarrow>
      \<exists>p. derwin lib s h w y x = Some p \<and> getmaxy lib p = h \<and> getmaxx lib p = w"

text \<open>The frame of panel \<open>i\<close> and the window inside it; half of the columns each.\<close>

definition panel_windows :: "'w screen_lib \<Rightarrow> 'w \<Rightarrow> int \<Rightarrow> ('w \<times> 'w) option" where
  "panel_windows lib stdscr i = do {
     out \<leftarrow> newwin lib stdscr (getmaxy lib stdscr - 1) (getmaxx lib stdscr div 2) 0 (getmaxx lib stdscr div 2 * i);
     w \<leftarrow> derwin lib out (getmaxy lib out - 2) (getmaxx lib out - 2) 1 1;
     Some (out, w) }"

text \<open>The window of a question, in the middle of the screen.\<close>

definition popup_width :: "byte list \<Rightarrow> int" where
  "popup_width message = (if int (length message) + 4 > 13 then int (length message) + 4 else 13)"

definition popup_window :: "'w screen_lib \<Rightarrow> 'w \<Rightarrow> byte list \<Rightarrow> 'w option" where
  "popup_window lib stdscr message = (let width = popup_width message in
     derwin lib stdscr 7 width ((getmaxy lib stdscr - 7) sdiv 2) ((getmaxx lib stdscr - width) sdiv 2))"

definition file_manager :: "'w screen_lib \<Rightarrow> 'w \<Rightarrow> dir_fun \<Rightarrow> chdir_fun \<Rightarrow> byte list \<Rightarrow> int list \<Rightarrow> (manager \<times> bool) option" where
  "file_manager lib stdscr dir chdir wd ks = do {
     status \<leftarrow> derwin lib stdscr 1 (getmaxx lib stdscr) (getmaxy lib stdscr - 1) 0;
     (out0, w0) \<leftarrow> panel_windows lib stdscr 0;
     (out1, w1) \<leftarrow> panel_windows lib stdscr 1;
     navigate (nat (getmaxy lib w0)) dir chdir wd ks }"

context screen_library
begin

text \<open>On a screen of at least 4 rows and 6 columns both panels have the same rows: all but three.\<close>

lemma panel_rows:
  assumes "4 \<le> getmaxy lib s" "6 \<le> getmaxx lib s" "i \<in> {0, 1}"
  shows "\<exists>out w. panel_windows lib s i = Some (out, w) \<and> getmaxy lib w = getmaxy lib s - 3"
proof -
  let ?h = "getmaxy lib s - 1" and ?c = "getmaxx lib s div 2"
  have "0 < ?h" "0 < ?c" "0 + ?h \<le> getmaxy lib s" "?c * i + ?c \<le> getmaxx lib s" "0 \<le> ?c * i"
    using assms by auto
  then obtain out where out: "newwin lib s ?h ?c 0 (?c * i) = Some out" "getmaxy lib out = ?h" "getmaxx lib out = ?c"
    using newwin_size by blast
  have "0 < ?h - 2" "0 < ?c - 2" "1 + (?h - 2) \<le> getmaxy lib out" "1 + (?c - 2) \<le> getmaxx lib out"
    using assms out(2,3) by auto
  then obtain w where w: "derwin lib out (?h - 2) (?c - 2) 1 1 = Some w" "getmaxy lib w = ?h - 2"
    using derwin_size [of "?h - 2" "?c - 2" 1 1 out] by auto
  show ?thesis using out w by (simp add: panel_windows_def)
qed

lemma popup_fits:
  assumes "7 \<le> getmaxy lib s" "popup_width message \<le> getmaxx lib s"
  shows "\<exists>p. popup_window lib s message = Some p \<and> getmaxx lib p = popup_width message"
proof -
  have half: "0 \<le> n \<Longrightarrow> n sdiv 2 = n div 2" for n :: int by (simp add: signed_divide_int_def sgn_if)
  have "0 < popup_width message" by (simp add: popup_width_def)
  moreover define y x where "y = (getmaxy lib s - 7) div 2" and "x = (getmaxx lib s - popup_width message) div 2"
  moreover have "0 \<le> y" "0 \<le> x" "y + 7 \<le> getmaxy lib s" "x + popup_width message \<le> getmaxx lib s"
    using assms by (auto simp: y_def x_def)
  ultimately obtain p where "derwin lib s 7 (popup_width message) y x = Some p" "getmaxx lib p = popup_width message"
    using derwin_size [of 7 "popup_width message" y x s] by auto
  then show ?thesis using assms by (simp add: popup_window_def Let_def half y_def x_def)
qed

lemma file_manager_navigates:
  assumes "4 \<le> getmaxy lib s" "6 \<le> getmaxx lib s"
  shows "file_manager lib s dir chdir wd ks = navigate (nat (getmaxy lib s - 3)) dir chdir wd ks"
proof -
  obtain status where "derwin lib s 1 (getmaxx lib s) (getmaxy lib s - 1) 0 = Some status"
    using derwin_size [of 1 "getmaxx lib s" "getmaxy lib s - 1" 0 s] assms by auto
  moreover obtain out0 w0 where "panel_windows lib s 0 = Some (out0, w0)" "getmaxy lib w0 = getmaxy lib s - 3"
    using panel_rows [OF assms, of 0] by auto
  moreover obtain out1 w1 where "panel_windows lib s 1 = Some (out1, w1)"
    using panel_rows [OF assms, of 1] by auto
  ultimately show ?thesis by (simp add: file_manager_def)
qed

end

text \<open>Windows that are nothing but their size.\<close>

definition plain_window :: "int \<times> int \<Rightarrow> int \<Rightarrow> int \<Rightarrow> int \<Rightarrow> int \<Rightarrow> (int \<times> int) option" where
  "plain_window s h w y x =
     (if 0 < h \<and> 0 < w \<and> 0 \<le> y \<and> 0 \<le> x \<and> y + h \<le> fst s \<and> x + w \<le> snd s then Some (h, w) else None)"

definition plain_lib :: "(int \<times> int) screen_lib" where
  "plain_lib = \<lparr>newwin = plain_window, derwin = plain_window, getmaxy = fst, getmaxx = snd\<rparr>"

interpretation plain: screen_library plain_lib
  by unfold_locales (auto simp: plain_lib_def plain_window_def)

section \<open>Properties\<close>



end
