(* ===== verification/FileCopy.thy ===== *)
theory FileCopy
  imports Prelude
begin

text \<open>
  The copy module of the file manager, text\_manager/copy.c. Files are a map from paths to
  contents; \<open>readable\<close> and \<open>writable\<close> say which paths \<^verbatim>\<open>fopen\<close> can open for reading and for
  writing. The progress thread is modelled by the values it is given: after each block the
  position in the destination and the size of the source, from which the code computes the
  percentage in floating point; \<open>progress_line\<close> is what one wake-up of it prints.
\<close>

type_synonym files = "byte list \<Rightarrow> byte list option"

text \<open>
  One item of \<^verbatim>\<open>fread(buf, 1024, 1, src)\<close>: the whole block, or 0 when fewer bytes are left.
\<close>

abbreviation (input) BLOCK :: nat where "BLOCK \<equiv> 1024"

text \<open>The copying loop: what was written, and the positions reported on the way.\<close>

function copy_loop :: "byte list \<Rightarrow> byte list \<Rightarrow> byte list \<times> nat list" where
  "copy_loop src dst =
     (if length src < BLOCK then (dst, [])
      else let dst = dst @ take BLOCK src;
               (out, ps) = copy_loop (drop BLOCK src) dst
           in (out, length dst # ps))"
  by pat_completeness auto
termination by (relation "measure (\<lambda>(src, dst). length src)") auto

declare copy_loop.simps [simp del]

text \<open>
  What \<open>_copy\<close> reports to the progress thread: after a block the position in the destination and the
  size of the source, from which the code computes the percentage, and at the end the
  percentage itself. Reports are ordered by how far the copy has come.
\<close>

datatype report = Position nat nat | Percent nat

instantiation report :: linorder
begin

fun less_report :: "report \<Rightarrow> report \<Rightarrow> bool" where
  "less_report (Position p n) (Position q m) = (p < q \<or> p = q \<and> n < m)"
| "less_report (Position _ _) (Percent _) = True"
| "less_report (Percent _) (Position _ _) = False"
| "less_report (Percent a) (Percent b) = (a < b)"

definition less_eq_report :: "report \<Rightarrow> report \<Rightarrow> bool" where
  "less_eq_report a b \<longleftrightarrow> a < b \<or> a = b"

instance
proof
  fix a b c :: report
  show "a < b \<longleftrightarrow> a \<le> b \<and> \<not> b \<le> a"
    by (cases a; cases b) (auto simp: less_eq_report_def)
  show "a \<le> a" by (simp add: less_eq_report_def)
  show "a \<le> b \<Longrightarrow> b \<le> c \<Longrightarrow> a \<le> c"
    by (cases a; cases b; cases c) (auto simp: less_eq_report_def)
  show "a \<le> b \<Longrightarrow> b \<le> a \<Longrightarrow> a = b"
    by (cases a; cases b) (auto simp: less_eq_report_def)
  show "a \<le> b \<or> b \<le> a"
    by (cases a; cases b) (auto simp: less_eq_report_def)
qed

end

text \<open>
  The thread \<open>_copy\<close>. The destination is opened for writing, and thereby emptied, before it is
  known whether the source could be opened. The result is the files and the reports.
\<close>

definition do_copy :: "(byte list \<Rightarrow> bool) \<Rightarrow> (byte list \<Rightarrow> bool) \<Rightarrow> files \<Rightarrow> byte list \<Rightarrow> byte list
    \<Rightarrow> files \<times> report list" where
  "do_copy can_read can_write fs source dest =
     (let src = (if can_read source then fs source else None);
          fs = (if can_write dest then fs(dest \<mapsto> []) else fs)
      in case src of None \<Rightarrow> (fs, [])
         | Some contents \<Rightarrow>
             if \<not> can_write dest then (fs, [])
             else let (out, ps) = copy_loop contents []
                  in (fs(dest \<mapsto> out), map (\<lambda>p. Position p (length contents)) ps @ [Percent 100]))"

definition copy :: "(byte list \<Rightarrow> bool) \<Rightarrow> (byte list \<Rightarrow> bool) \<Rightarrow> files \<Rightarrow> byte list \<Rightarrow> byte list
    \<Rightarrow> (files \<times> report list) option" where
  "copy can_read can_write fs source destination = do {
     r \<leftarrow> strcmp source destination;
     if r = 0 then Some (fs, [])
     else Some (do_copy can_read can_write fs (cstr source) (cstr destination)) }"

text \<open>
  One wake-up of \<open>show_progress\<close>: the status text is printed into an array of \<open>width\<close> bytes, blanks
  fill it up from its end, and the first \<open>fill\<close> cells are highlighted. \<open>percent\<close> is the three-digit
  text of the number.
\<close>

definition status_text :: "byte list \<Rightarrow> byte list \<Rightarrow> byte list \<Rightarrow> byte list" where
  "status_text percent source dest =
     [91] @ percent @ [93, 67, 111, 112, 121, 105, 110, 103, 58, 32, 39] @ source @ [39, 32, 116, 111, 32, 39]
     @ dest @ [39]"

definition progress_line :: "nat \<Rightarrow> nat \<Rightarrow> byte list \<Rightarrow> byte list \<Rightarrow> byte list \<Rightarrow> (bool \<times> byte) list option" where
  "progress_line width fill percent source dest = do {
     status \<leftarrow> st_bytes (replicate width 0) 0 (status_text percent source dest @ [0]);
     n \<leftarrow> strlen status;
     let status = take n status @ replicate (width - n) 32;
     Some (map (\<lambda>i. (i < fill, status ! i)) [0 ..< width]) }"

section \<open>Lemmas\<close>

lemma copy_loop_eq:
  "copy_loop src dst =
     (dst @ take (BLOCK * (length src div BLOCK)) src,
      map (\<lambda>k. length dst + BLOCK * (k + 1)) [0 ..< length src div BLOCK])"
proof (induction src dst rule: copy_loop.induct)
  case (1 src dst)
  show ?case
  proof (cases "length src < BLOCK")
    case True
    then show ?thesis by (subst copy_loop.simps) simp
  next
    case False
    define q where "q = length (drop BLOCK src) div BLOCK"
    have n: "length src div BLOCK = Suc q" using False by (simp add: q_def le_div_geq)
    have t: "take (BLOCK * Suc q) src = take BLOCK src @ take (BLOCK * q) (drop BLOCK src)"
      by (simp add: take_add)
    have len: "length (dst @ take BLOCK src) = length dst + BLOCK" using False by simp
    have "copy_loop (drop BLOCK src) (dst @ take BLOCK src) =
        ((dst @ take BLOCK src) @ take (BLOCK * q) (drop BLOCK src),
         map (\<lambda>k. length (dst @ take BLOCK src) + BLOCK * (k + 1)) [0 ..< q])"
      using 1 [OF False refl] by (simp only: q_def)
    moreover have "map (\<lambda>k. length dst + BLOCK * (k + 1)) [0 ..< Suc q] =
        (length dst + BLOCK) # map (\<lambda>k. length dst + BLOCK + BLOCK * (k + 1)) [0 ..< q]"
      by (simp add: upt_conv_Cons map_Suc_upt [symmetric] del: upt_Suc)
    ultimately show ?thesis
      using False unfolding n t by (subst copy_loop.simps) (simp add: len del: upt_Suc)
  qed
qed

lemma do_copy_eq:
  assumes "can_read s" "can_write t" "fs s = Some xs"
  shows "do_copy can_read can_write fs s t =
    (fs(t \<mapsto> take (BLOCK * (length xs div BLOCK)) xs),
     map (\<lambda>k. Position (BLOCK * (k + 1)) (length xs)) [0 ..< length xs div BLOCK] @ [Percent 100])"
  using assms by (simp add: do_copy_def copy_loop_eq comp_def)

lemma copy_distinct:
  assumes "terminated source" "terminated dest" "cstr source \<noteq> cstr dest"
  shows "copy cr cw fs source dest = Some (do_copy cr cw fs (cstr source) (cstr dest))"
  using assms by (auto simp: copy_def strcmp_eq not_less_iff_gr_or_eq)

section \<open>Properties\<close>

text \<open>
  C23. Copying a readable file to a writable path with another name: the destination gets the
  whole blocks of 1024 bytes of the source and loses the rest, so that it equals the source
  exactly when the size is a multiple of 1024; no other file changes; the progress reports
  grow, never exceed the size, and end with 100.
\<close>

theorem copy_whole_blocks:
  assumes "terminated source" "terminated dest" "cstr source \<noteq> cstr dest"
    and "can_read (cstr source)" "can_write (cstr dest)" "fs (cstr source) = Some xs"
  shows "\<exists>fs' ys ps. copy can_read can_write fs source dest = Some (fs', map (\<lambda>p. Position p (length xs)) ps @ [Percent 100])
    \<and> fs' (cstr dest) = Some ys \<and> ys = take (BLOCK * (length xs div BLOCK)) xs
    \<and> (ys = xs \<longleftrightarrow> BLOCK dvd length xs)
    \<and> (\<forall>p. p \<noteq> cstr dest \<longrightarrow> fs' p = fs p)
    \<and> sorted_wrt (<) ps \<and> (\<forall>p \<in> set ps. p \<le> length xs)"
proof -
  let ?q = "length xs div BLOCK"
  let ?r = "map (\<lambda>k. BLOCK * (k + 1)) [0 ..< ?q]"
  have "BLOCK * (k + 1) \<le> length xs" if "k < ?q" for k
  proof -
    have "BLOCK * (k + 1) \<le> BLOCK * ?q" using that by (intro mult_le_mono2) simp
    also have "\<dots> \<le> length xs" by simp
    finally show ?thesis .
  qed
  moreover have blocks: "n \<le> BLOCK * (n div BLOCK) \<longleftrightarrow> BLOCK dvd n" for n
    using times_div_less_eq_dividend [of BLOCK n]
    by (metis dvd_mult_div_cancel dvd_triv_left le_antisym order_refl)
  moreover have "take (BLOCK * ?q) xs = xs \<longleftrightarrow> BLOCK dvd length xs"
    using blocks [of "length xs"] by (simp add: take_all_iff)
  moreover have "sorted_wrt (<) ?r" by (simp add: sorted_wrt_map)
  ultimately show ?thesis
    using copy_distinct [OF assms(1-3), of can_read can_write fs] do_copy_eq [of can_read "cstr source" can_write "cstr dest" fs xs] assms(4-6)
    by (intro exI [of _ "fs(cstr dest \<mapsto> take (BLOCK * ?q) xs)"] exI [of _ "take (BLOCK * ?q) xs"] exI [of _ ?r])
      (auto simp: comp_def)
qed

abbreviation example_files :: files where
  "example_files \<equiv> [[97] \<mapsto> replicate 1500 7, [98] \<mapsto> [1, 2]]"

theorem copy_whole_blocks_witness:
  "\<exists>fs' reports. copy (\<lambda>_. True) (\<lambda>_. True) example_files [97, 0] [98, 0] = Some (fs', reports)
     \<and> fs' [98] = Some (replicate 1024 7)"
proof -
  have "\<exists>fs' ys ps. copy (\<lambda>_. True) (\<lambda>_. True) example_files [97, 0] [98, 0]
        = Some (fs', map (\<lambda>p. Position p 1500) ps @ [Percent 100])
      \<and> fs' [98] = Some ys \<and> ys = take 1024 (replicate 1500 7)"
    using copy_whole_blocks [of "[97, 0]" "[98, 0]" "\<lambda>_. True" "\<lambda>_. True" example_files "replicate 1500 7"]
    by simp blast
  then show ?thesis by auto
qed

text \<open>
  When the source cannot be opened, an existing destination is emptied all the same; when
  the two names are equal nothing happens.
\<close>

lemma copy_empties_destination:
  assumes "terminated source" "terminated dest" "can_write (cstr dest)"
    and "\<not> can_read (cstr source) \<or> fs (cstr source) = None"
  shows "copy can_read can_write fs source dest =
    Some (if cstr source = cstr dest then fs else fs(cstr dest \<mapsto> []), [])"
proof (cases "cstr source = cstr dest")
  case True
  then show ?thesis using assms(1,2) by (simp add: copy_def strcmp_eq)
next
  case False
  then show ?thesis using copy_distinct [OF assms(1,2) False] assms(3,4) by (auto simp: do_copy_def)
qed

lemma copy_empties_destination_witness:
  "\<exists>fs'. copy (\<lambda>_. True) (\<lambda>_. True) example_files [99, 0] [97, 0] = Some (fs', []) \<and> fs' [97] = Some []"
  using copy_empties_destination [of "[99, 0]" "[97, 0]" "\<lambda>_. True" "\<lambda>_. True" example_files] by simp

text \<open>
  The progress line fits only in a window that is wider than its text: one cell for every
  column, the text and then blanks, the first \<open>fill\<close> cells highlighted; in any narrower window
  the code writes past its array.
\<close>

lemma progress_line_fits:
  assumes "0 \<notin> set (status_text percent source dest)"
  shows "progress_line width fill percent source dest =
    (if length (status_text percent source dest) < width
     then Some (map (\<lambda>i. (i < fill, (status_text percent source dest
                    @ replicate (width - length (status_text percent source dest)) 32) ! i)) [0 ..< width])
     else None)"
  using assms by (auto simp: progress_line_def st_bytes_def strlen_eq cstr_append Suc_le_eq)

lemma progress_line_fits_witness:
  "progress_line 30 3 [48, 48, 55] [97] [98] \<noteq> None \<and> progress_line 20 3 [48, 48, 55] [97] [98] = None"
  using progress_line_fits [of "[48, 48, 55]" "[97]" "[98]" 30 3] progress_line_fits [of "[48, 48, 55]" "[97]" "[98]" 20 3]
  by (simp add: status_text_def)

end
