(* ===== verification/CopyThreads.thy ===== *)
theory CopyThreads
  imports FileCopy "HOL-Library.Sublist"
begin

text \<open>
  The two threads of text\_manager/copy.c while a file is copied: \<open>_copy\<close>, which reports each block,
  and \<open>show_progress\<close>, which sleeps on the condition variable and shows the number it finds. They
  interleave, so the pair is a step relation with one step for every call that another thread
  can see. \<open>todo\<close> are the reports that \<open>_copy\<close> still has to make (those that \<open>do_copy\<close> computes).
  \<open>spurious\<close> says whether \<^verbatim>\<open>pthread_cond_wait\<close> may return without a signal, which POSIX allows.
\<close>

section \<open>The threads\<close>

datatype copier_pc = Copying | Writing | Signalling | Unlocking | Done

text \<open>
  The progress thread: about to lock the mutex, holding it on the way into the wait, waiting,
  woken up and about to take the mutex again, showing the number, and cancelled.
\<close>

datatype progress_pc = Created | Entering | Blocked | Woken | Showing | Dead

datatype holder = Copier | Progress

text \<open>\<open>percent\<close> has no value before the first report. \<open>shown\<close> logs what the progress thread has read.\<close>

record 'r copying =
  todo :: "'r list"
  copier :: copier_pc
  progress :: progress_pc
  mutex :: "holder option"
  percent :: "'r option"
  cancelled :: bool
  shown :: "'r option list"

definition copying_start :: "'r list \<Rightarrow> 'r copying" where
  "copying_start reports = \<lparr>todo = reports, copier = Copying, progress = Created, mutex = None,
     percent = None, cancelled = False, shown = []\<rparr>"

text \<open>
  A cancelled thread ends in its next wait, which takes the mutex back first, or in the output;
  either way it ends holding the mutex, for there is no cleanup handler.
\<close>

inductive copy_step :: "bool \<Rightarrow> 'r copying \<Rightarrow> 'r copying \<Rightarrow> bool" for spurious where
  Lock: "copier s = Copying \<Longrightarrow> todo s \<noteq> [] \<Longrightarrow> mutex s = None \<Longrightarrow>
     copy_step spurious s (s\<lparr>copier := Writing, mutex := Some Copier\<rparr>)"
| Write: "copier s = Writing \<Longrightarrow> todo s = r # rs \<Longrightarrow>
     copy_step spurious s (s\<lparr>copier := Signalling, todo := rs, percent := Some r\<rparr>)"
| Signal: "copier s = Signalling \<Longrightarrow>
     copy_step spurious s (s\<lparr>copier := Unlocking, progress := if progress s = Blocked then Woken else progress s\<rparr>)"
| Unlock: "copier s = Unlocking \<Longrightarrow>
     copy_step spurious s (s\<lparr>copier := Copying, mutex := None\<rparr>)"
| Cancel: "copier s = Copying \<Longrightarrow> todo s = [] \<Longrightarrow>
     copy_step spurious s (s\<lparr>copier := Done, cancelled := True\<rparr>)"
| Show_Lock: "progress s = Created \<Longrightarrow> mutex s = None \<Longrightarrow>
     copy_step spurious s (s\<lparr>progress := Entering, mutex := Some Progress\<rparr>)"
| Show_Wait: "progress s = Entering \<Longrightarrow>
     copy_step spurious s (s\<lparr>progress := Blocked, mutex := None\<rparr>)"
| Show_Spurious: "spurious \<Longrightarrow> progress s = Blocked \<Longrightarrow>
     copy_step spurious s (s\<lparr>progress := Woken\<rparr>)"
| Show_Wake: "progress s = Woken \<Longrightarrow> mutex s = None \<Longrightarrow>
     copy_step spurious s (s\<lparr>progress := Showing, mutex := Some Progress\<rparr>)"
| Show_Print: "progress s = Showing \<Longrightarrow>
     copy_step spurious s (s\<lparr>progress := Entering, shown := shown s @ [percent s]\<rparr>)"
| Show_Cancel_Wait: "cancelled s \<Longrightarrow> progress s \<in> {Blocked, Woken} \<Longrightarrow> mutex s = None \<Longrightarrow>
     copy_step spurious s (s\<lparr>progress := Dead, mutex := Some Progress\<rparr>)"
| Show_Cancel_Held: "cancelled s \<Longrightarrow> progress s \<in> {Entering, Showing} \<Longrightarrow>
     copy_step spurious s (s\<lparr>progress := Dead\<rparr>)"

code_pred (modes: i \<Rightarrow> i \<Rightarrow> o \<Rightarrow> bool, i \<Rightarrow> i \<Rightarrow> i \<Rightarrow> bool) copy_step .

inductive_cases copy_stepE: "copy_step spurious s s'"

section \<open>Invariants\<close>

text \<open>The mutex is held by a thread exactly while the thread is between its lock and its unlock.\<close>

definition mutex_ok :: "'r copying \<Rightarrow> bool" where
  "mutex_ok s \<longleftrightarrow> (mutex s = Some Copier \<longleftrightarrow> copier s \<in> {Writing, Signalling, Unlocking})
     \<and> (mutex s = Some Progress \<longleftrightarrow> progress s \<in> {Entering, Showing, Dead})"

lemma mutex_ok_start: "mutex_ok (copying_start rs)"
  by (simp add: mutex_ok_def copying_start_def)

lemma mutex_ok_step: "copy_step spurious s s' \<Longrightarrow> mutex_ok s \<Longrightarrow> mutex_ok s'"
  by (erule copy_stepE) (auto simp: mutex_ok_def)

text \<open>
  What has been shown is a part of the reports made, in order; a thread that has been woken, or is
  about to be, finds a report that it has not shown yet.
\<close>

definition shown_ok :: "'r list \<Rightarrow> 'r copying \<Rightarrow> bool" where
  "shown_ok reports s \<longleftrightarrow> (\<exists>made. reports = made @ todo s \<and> subseq (shown s) (map Some made)
     \<and> (copier s = Signalling \<or> progress s \<in> {Woken, Showing} \<longrightarrow> subseq (shown s @ [percent s]) (map Some made)))"

lemma shown_ok_start: "shown_ok rs (copying_start rs)"
  by (simp add: shown_ok_def copying_start_def)

lemma shown_ok_step:
  assumes "copy_step False s s'" "mutex_ok s" "shown_ok rs s"
  shows "shown_ok rs s'"
proof -
  obtain made where made: "rs = made @ todo s" "subseq (shown s) (map Some made)"
    "copier s = Signalling \<or> progress s \<in> {Woken, Showing} \<longrightarrow> subseq (shown s @ [percent s]) (map Some made)"
    using assms(3) by (auto simp: shown_ok_def)
  from assms(1) show ?thesis
  proof (cases rule: copy_step.cases)
    case (Write r rest)
    have "subseq (shown s @ [Some r]) (map Some (made @ [r]))"
      using made(2) by (simp add: list_emb_append_mono)
    moreover have "subseq (shown s) (map Some (made @ [r]))" using made(2) by (simp add: list_emb_prefix)
    ultimately show ?thesis using Write made(1) by (auto simp: shown_ok_def intro!: exI [of _ "made @ [r]"])
  qed (use made assms(2) in \<open>auto simp: shown_ok_def mutex_ok_def intro!: exI [of _ made]\<close>)
qed

lemma copying_reachable:
  assumes "(copy_step spurious)\<^sup>*\<^sup>* (copying_start rs) s"
  shows "mutex_ok s" "\<not> spurious \<Longrightarrow> shown_ok rs s"
proof -
  from assms have "mutex_ok s \<and> (\<not> spurious \<longrightarrow> shown_ok rs s)"
    by (induction rule: rtranclp_induct) (auto intro: mutex_ok_start shown_ok_start mutex_ok_step shown_ok_step)
  then show "mutex_ok s" "\<not> spurious \<Longrightarrow> shown_ok rs s" by auto
qed


text \<open>The cancellation is the last step of the copier, and only it ends the progress thread.\<close>

definition end_ok :: "'r copying \<Rightarrow> bool" where
  "end_ok s \<longleftrightarrow> (cancelled s \<longleftrightarrow> copier s = Done) \<and> (progress s = Dead \<longrightarrow> cancelled s)
     \<and> (copier s = Done \<longrightarrow> todo s = []) \<and> (copier s = Writing \<longrightarrow> todo s \<noteq> [])"

lemma end_ok_reachable:
  "(copy_step spurious)\<^sup>*\<^sup>* (copying_start rs) s \<Longrightarrow> end_ok s"
proof (induction rule: rtranclp_induct)
  case (step s s')
  then show ?case by (elim copy_stepE) (auto simp: end_ok_def)
qed (simp add: end_ok_def copying_start_def)

lemma subseq_map_Some: "subseq xs (map Some ys) \<Longrightarrow> \<exists>zs. xs = map Some zs \<and> subseq zs ys"
proof (induction xs "map Some ys" arbitrary: ys rule: list_emb.induct)
  case (list_emb_Cons xs zs z)
  then show ?case by (auto simp: Cons_eq_map_conv)
next
  case (list_emb_Cons2 x y xs ys')
  then obtain z zs nums where "ys = z # zs" "x = Some z" "xs = map Some nums" "subseq nums zs"
    by (auto simp: Cons_eq_map_conv)
  then show ?case by (intro exI [of _ "z # nums"]) auto
qed auto

section \<open>The end of a copy\<close>

text \<open>What is left to do, in steps.\<close>

fun copier_work :: "copier_pc \<Rightarrow> nat" where
  "copier_work Copying = 1"
| "copier_work Writing = 0"
| "copier_work Signalling = 6"
| "copier_work Unlocking = 2"
| "copier_work Done = 0"

fun progress_work :: "progress_pc \<Rightarrow> nat" where
  "progress_work Created = 3"
| "progress_work Entering = 2"
| "progress_work Blocked = 1"
| "progress_work Woken = 4"
| "progress_work Showing = 3"
| "progress_work Dead = 0"

definition work :: "'r copying \<Rightarrow> nat" where
  "work s = 7 * length (todo s) + copier_work (copier s) + progress_work (progress s)"

lemma copy_step_work: "copy_step False s s' \<Longrightarrow> work s' < work s"
  by (erule copy_stepE) (auto simp: work_def)

lemma copy_steps_work: "(copy_step False ^^ n) s s' \<Longrightarrow> n + work s' \<le> work s"
  by (induction n arbitrary: s') (fastforce dest: copy_step_work)+

text \<open>A state in which neither thread can go on is the end of both.\<close>

lemma no_deadlock:
  assumes "mutex_ok s" "end_ok s" "\<nexists>s'. copy_step spurious s s'"
  shows "copier s = Done \<and> progress s = Dead \<and> mutex s = Some Progress \<and> todo s = []"
proof -
  note stuck = assms(3) [simplified, rule_format]
  have idle: "copier s \<in> {Copying, Done}"
  proof (cases "copier s")
    case Writing
    then obtain r rs where "todo s = r # rs" using assms(2) by (auto simp: end_ok_def neq_Nil_conv)
    with Writing show ?thesis using stuck copy_step.Write [of s r rs spurious] by simp
  qed (use stuck copy_step.Signal [of s spurious] copy_step.Unlock [of s spurious] in simp_all)
  have "progress s = Dead"
  proof (rule ccontr)
    assume alive: "progress s \<noteq> Dead"
    have "progress s \<notin> {Entering, Showing}" using stuck copy_step.Show_Wait [of s spurious] copy_step.Show_Print [of s spurious] by auto
    then have free: "mutex s = None"
      using assms(1) idle alive by (cases "mutex s") (auto simp: mutex_ok_def intro: holder.exhaust)
    have "progress s \<noteq> Created" "progress s \<noteq> Woken" using stuck free copy_step.Show_Lock [of s spurious] copy_step.Show_Wake [of s spurious] by auto
    then have "progress s = Blocked" using alive \<open>progress s \<notin> {Entering, Showing}\<close> by (cases "progress s") auto
    moreover have "copier s = Done" using stuck free idle copy_step.Lock [of s spurious] copy_step.Cancel [of s spurious] by auto
    ultimately show False using stuck free assms(2) copy_step.Show_Cancel_Wait [of s spurious] by (auto simp: end_ok_def)
  qed
  then show ?thesis using assms(1,2) by (auto simp: mutex_ok_def end_ok_def)
qed

section \<open>The reports of a copy\<close>


lemma copy_reports_increase:
  assumes "copy can_read can_write fs source dest = Some (fs', reports)"
  shows "sorted_wrt (<) reports"
proof -
  have "sorted_wrt (<) (map (\<lambda>p. Position p n) ps @ [Percent 100]) \<longleftrightarrow> sorted_wrt (<) ps" for n ps
    by (simp add: sorted_wrt_append sorted_wrt_map)
  moreover have "sorted_wrt (<) (snd (copy_loop xs dst))" for xs dst
    by (simp add: copy_loop_eq sorted_wrt_map)
  ultimately show ?thesis
    using assms by (auto simp: copy_def do_copy_def Let_def split_beta split: if_splits option.splits bind_splits)
qed

lemma sorted_wrt_subseq: "subseq xs ys \<Longrightarrow> sorted_wrt P ys \<Longrightarrow> sorted_wrt P xs"
proof (induction rule: list_emb.induct)
  case (list_emb_Cons2 x y xs ys)
  moreover have "set xs \<subseteq> set ys" using list_emb_Cons2.hyps by (auto simp: subseq_conv_nths dest: set_nths_subset [THEN subsetD])
  ultimately show ?case by auto
qed auto


section \<open>Runs\<close>

text \<open>The first report is shown when the progress thread waits before it is made.\<close>

lemma first_report_shown:
  "(copy_step spurious)\<^sup>*\<^sup>* (copying_start (r # rs))
     ((copying_start rs)\<lparr>progress := Entering, mutex := Some Progress, percent := Some r, shown := [Some r]\<rparr>)"
proof -
  let ?step = "copy_step spurious" and ?s0 = "copying_start (r # rs)"
  define s1 where "s1 = ?s0\<lparr>progress := Entering, mutex := Some Progress\<rparr>"
  define s2 where "s2 = ?s0\<lparr>progress := Blocked\<rparr>"
  define s3 where "s3 = s2\<lparr>copier := Writing, mutex := Some Copier\<rparr>"
  define s4 where "s4 = s3\<lparr>copier := Signalling, todo := rs, percent := Some r\<rparr>"
  define s5 where "s5 = s4\<lparr>copier := Unlocking, progress := Woken\<rparr>"
  define s6 where "s6 = s5\<lparr>copier := Copying, mutex := None\<rparr>"
  define s7 where "s7 = s6\<lparr>progress := Showing, mutex := Some Progress\<rparr>"
  note defs = s1_def s2_def s3_def s4_def s5_def s6_def s7_def copying_start_def
  have "?step ?s0 s1" using copy_step.Show_Lock [of ?s0 spurious] by (simp add: defs)
  moreover have "?step s1 s2" using copy_step.Show_Wait [of s1 spurious] by (simp add: defs)
  moreover have "?step s2 s3" using copy_step.Lock [of s2 spurious] by (simp add: defs)
  moreover have "?step s3 s4" using copy_step.Write [of s3 r rs spurious] by (simp add: defs)
  moreover have "?step s4 s5" using copy_step.Signal [of s4 spurious] by (simp add: defs)
  moreover have "?step s5 s6" using copy_step.Unlock [of s5 spurious] by (simp add: defs)
  moreover have "?step s6 s7" using copy_step.Show_Wake [of s6 spurious] by (simp add: defs)
  moreover have "?step s7 ((copying_start rs)\<lparr>progress := Entering, mutex := Some Progress, percent := Some r, shown := [Some r]\<rparr>)"
    using copy_step.Show_Print [of s7 spurious] by (simp add: defs)
  ultimately show ?thesis by (meson rtranclp.rtrancl_refl rtranclp.rtrancl_into_rtrancl)
qed

text \<open>The copier can make all its reports before the progress thread first waits; none is shown then.\<close>

lemma reports_lost:
  "\<exists>s. (copy_step spurious)\<^sup>*\<^sup>* (copying_start rs) s \<and> copier s = Done \<and> progress s = Dead \<and> shown s = []"
proof -
  let ?step = "copy_step spurious"
  have all: "\<exists>p. ?step\<^sup>*\<^sup>* ((copying_start rs)\<lparr>percent := q\<rparr>) ((copying_start [])\<lparr>percent := p\<rparr>)" for q
  proof (induction rs arbitrary: q)
    case (Cons r rs)
    define s0 where "s0 = (copying_start (r # rs))\<lparr>percent := q\<rparr>"
    define s1 where "s1 = s0\<lparr>copier := Writing, mutex := Some Copier\<rparr>"
    define s2 where "s2 = s1\<lparr>copier := Signalling, todo := rs, percent := Some r\<rparr>"
    define s3 where "s3 = s2\<lparr>copier := Unlocking\<rparr>"
    define s4 where "s4 = (copying_start rs)\<lparr>percent := Some r\<rparr>"
    note defs = s0_def s1_def s2_def s3_def s4_def copying_start_def
    have "?step s0 s1" using copy_step.Lock [of s0 spurious] by (simp add: defs)
    moreover have "?step s1 s2" using copy_step.Write [of s1 r rs spurious] by (simp add: defs)
    moreover have "?step s2 s3" using copy_step.Signal [of s2 spurious] by (simp add: defs)
    moreover have "?step s3 s4" using copy_step.Unlock [of s3 spurious] by (simp add: defs)
    moreover obtain p where "?step\<^sup>*\<^sup>* s4 ((copying_start [])\<lparr>percent := p\<rparr>)"
      using Cons.IH [of "Some r"] by (auto simp: s4_def)
    ultimately show ?case unfolding s0_def by (meson converse_rtranclp_into_rtranclp)
  qed auto
  have "(copying_start rs)\<lparr>percent := None\<rparr> = copying_start rs" by (simp add: copying_start_def)
  with all [of None] obtain p where p: "?step\<^sup>*\<^sup>* (copying_start rs) ((copying_start [])\<lparr>percent := p\<rparr>)" by auto
  define t0 where "t0 = (copying_start [] :: 'a copying)\<lparr>percent := p\<rparr>"
  define t1 where "t1 = t0\<lparr>copier := Done, cancelled := True\<rparr>"
  define t2 where "t2 = t1\<lparr>progress := Entering, mutex := Some Progress\<rparr>"
  define t3 where "t3 = t2\<lparr>progress := Dead\<rparr>"
  note defs = t0_def t1_def t2_def t3_def copying_start_def
  have "?step t0 t1" using copy_step.Cancel [of t0 spurious] by (simp add: defs)
  moreover have "?step t1 t2" using copy_step.Show_Lock [of t1 spurious] by (simp add: defs)
  moreover have "?step t2 t3" using copy_step.Show_Cancel_Held [of t2 spurious] by (simp add: defs)
  ultimately have "?step\<^sup>*\<^sup>* (copying_start rs) t3"
    using p by (fold t0_def) (meson rtranclp.rtrancl_into_rtrancl)
  moreover have "copier t3 = Done" "progress t3 = Dead" "shown t3 = []" by (simp_all add: defs)
  ultimately show ?thesis by blast
qed

text \<open>With a spurious wake-up the progress thread may show a number that has no value yet.\<close>

lemma spurious_shows_garbage:
  "\<exists>s. (copy_step True)\<^sup>*\<^sup>* (copying_start rs) s \<and> shown s = [None]"
proof -
  let ?step = "copy_step True" and ?s0 = "copying_start rs"
  define s1 where "s1 = ?s0\<lparr>progress := Entering, mutex := Some Progress\<rparr>"
  define s2 where "s2 = s1\<lparr>progress := Blocked, mutex := None\<rparr>"
  define s3 where "s3 = s2\<lparr>progress := Woken\<rparr>"
  define s4 where "s4 = s3\<lparr>progress := Showing, mutex := Some Progress\<rparr>"
  define s5 where "s5 = s4\<lparr>progress := Entering, shown := [None]\<rparr>"
  note defs = s1_def s2_def s3_def s4_def s5_def copying_start_def
  have "?step ?s0 s1" using copy_step.Show_Lock [of ?s0 True] by (simp add: defs)
  moreover have "?step s1 s2" using copy_step.Show_Wait [of s1 True] by (simp add: defs)
  moreover have "?step s2 s3" using copy_step.Show_Spurious [of True s2] by (simp add: defs)
  moreover have "?step s3 s4" using copy_step.Show_Wake [of s3 True] by (simp add: defs)
  moreover have "?step s4 s5" using copy_step.Show_Print [of s4 True] by (simp add: defs)
  ultimately have "?step\<^sup>*\<^sup>* ?s0 s5" by (meson rtranclp.rtrancl_refl rtranclp.rtrancl_into_rtrancl)
  moreover have "shown s5 = [None]" by (simp add: defs)
  ultimately show ?thesis by blast
qed

section \<open>Properties\<close>





end
