(* ===== verification/Multiplex.thy ===== *)
theory Multiplex
  imports Prelude
begin

text \<open>
  The event server of select\_poll\_epoll/main.c, with each of its three ways to wait: \<^verbatim>\<open>select\<close> (and
  \<^verbatim>\<open>pselect\<close>, which the file selects), \<^verbatim>\<open>poll\<close> and \<^verbatim>\<open>epoll\<close>. What the kernel answers in one round is
  an argument: which descriptors are ready, the new socket of \<^verbatim>\<open>accept\<close>, the data of \<^verbatim>\<open>recv\<close> and
  \<^verbatim>\<open>recvfrom\<close>. The locale \<open>watch_set\<close> is what the server relies on: a set of watched descriptors to
  which connections are added and from which they are removed.
\<close>

section \<open>What the server sees and prints\<close>

text \<open>\<^const>\<open>None\<close> in an answer is an error return of -1; an empty answer is the end of a connection.\<close>

record round =
  ready :: "int \<Rightarrow> bool"
  accepted :: int
  udp_in :: "byte list option"
  tcp_in :: "int \<Rightarrow> byte list option"

datatype event = New_Client int | Udp_Text "byte list" | Tcp_Text int "byte list" | Disconnect int

record buffers =
  udpbuf :: "byte list"
  tcpbuf :: "byte list"

abbreviation (input) FD_SETSIZE :: nat where "FD_SETSIZE \<equiv> 1024"
abbreviation (input) POLL_MAX :: nat where "POLL_MAX \<equiv> 1024"

definition start_buffers :: buffers where
  "start_buffers = \<lparr>udpbuf = replicate 256 0, tcpbuf = replicate 256 0\<rparr>"

text \<open>Receiving into the start of a 256 byte buffer that is then printed as a string.\<close>

definition fill :: "byte list option \<Rightarrow> byte list \<Rightarrow> byte list option" where
  "fill answer buf = (case answer of None \<Rightarrow> Some buf | Some bs \<Rightarrow> st_bytes buf 0 bs)"

definition recv_udp :: "round \<Rightarrow> buffers \<Rightarrow> (buffers \<times> event) option" where
  "recv_udp r b = do {
     buf \<leftarrow> fill (udp_in r) (udpbuf b);
     _ \<leftarrow> strlen buf;
     Some (b\<lparr>udpbuf := buf\<rparr>, Udp_Text (cstr buf)) }"

definition recv_tcp :: "round \<Rightarrow> int \<Rightarrow> buffers \<Rightarrow> (buffers \<times> event) option" where
  "recv_tcp r fd b = do {
     buf \<leftarrow> fill (tcp_in r fd) (tcpbuf b);
     _ \<leftarrow> strlen buf;
     Some (b\<lparr>tcpbuf := buf\<rparr>, Tcp_Text fd (cstr buf)) }"

section \<open>select\<close>

text \<open>The set \<^verbatim>\<open>rset\<close> as its bits, and \<^verbatim>\<open>max\<close>. Descriptors outside the set are out of bounds.\<close>

record fdset =
  rset :: "bool list"
  max_fd :: int

definition set_max :: "int \<Rightarrow> fdset \<Rightarrow> fdset" where
  "set_max val w = w\<lparr>max_fd := (if val > max_fd w then val else max_fd w)\<rparr>"

definition fd_in_range :: "int \<Rightarrow> bool" where
  "fd_in_range fd \<longleftrightarrow> 0 \<le> fd \<and> fd < int FD_SETSIZE"

definition sel_add :: "int \<Rightarrow> fdset \<Rightarrow> fdset option" where
  "sel_add fd w = (if fd_in_range fd then Some (set_max fd (w\<lparr>rset := (rset w)[nat fd := True]\<rparr>)) else None)"

definition sel_del :: "int \<Rightarrow> fdset \<Rightarrow> fdset option" where
  "sel_del fd w = (if fd_in_range fd then Some (w\<lparr>rset := (rset w)[nat fd := False]\<rparr>) else None)"

definition sel_start :: "int \<Rightarrow> int \<Rightarrow> fdset option" where
  "sel_start tcpsock udpsock = do {
     let w = \<lparr>rset = replicate FD_SETSIZE False, max_fd = -1\<rparr>;
     let w = set_max (if tcpsock > udpsock then tcpsock else udpsock) w;
     w \<leftarrow> sel_add tcpsock w;
     sel_add udpsock w }"

text \<open>One ready descriptor.\<close>

definition sel_serve :: "int \<Rightarrow> int \<Rightarrow> round \<Rightarrow> int \<Rightarrow> fdset \<Rightarrow> buffers \<Rightarrow> (fdset \<times> buffers \<times> event) option" where
  "sel_serve tcpsock udpsock r i w b =
     (if i = tcpsock then do { w \<leftarrow> sel_add (accepted r) w; Some (w, b, New_Client (accepted r)) }
      else if i = udpsock then do { (b, e) \<leftarrow> recv_udp r b; Some (w, b, e) }
      else if tcp_in r i = Some [] then do { w \<leftarrow> sel_del i w; Some (w, b, Disconnect i) }
      else do { (b, e) \<leftarrow> recv_tcp r i b; Some (w, b, e) })"

text \<open>
  The loop over the descriptors; \<open>tset\<close> is the set that \<^verbatim>\<open>pselect\<close> left. The bound \<^verbatim>\<open>max\<close> may grow while
  the loop runs.
\<close>

function sel_for :: "int \<Rightarrow> int \<Rightarrow> round \<Rightarrow> bool list \<Rightarrow> nat \<Rightarrow> fdset \<Rightarrow> buffers
    \<Rightarrow> (fdset \<times> buffers \<times> event list) option" where
  "sel_for tcpsock udpsock r tset i w b =
     (if \<not> int i \<le> max_fd w then Some (w, b, [])
      else if \<not> i < FD_SETSIZE then None
      else if \<not> tset ! i then sel_for tcpsock udpsock r tset (i + 1) w b
      else case sel_serve tcpsock udpsock r (int i) w b of None \<Rightarrow> None
        | Some (w, b, e) \<Rightarrow>
            (case sel_for tcpsock udpsock r tset (i + 1) w b of None \<Rightarrow> None
             | Some (w, b, es) \<Rightarrow> Some (w, b, e # es)))"
  by pat_completeness auto
termination
  by (relation "measure (\<lambda>(tcpsock, udpsock, r, tset, i, w, b). FD_SETSIZE - i)") auto

declare sel_for.simps [simp del]

text \<open>
  One round: \<^verbatim>\<open>tset = rset\<close>, then \<^verbatim>\<open>pselect\<close> keeps the ready descriptors up to \<^verbatim>\<open>max\<close>; when it fails,
  its answer is not 0 either and the set stays as it was.
\<close>

definition sel_round :: "int \<Rightarrow> int \<Rightarrow> bool \<Rightarrow> round \<Rightarrow> fdset \<Rightarrow> buffers \<Rightarrow> (fdset \<times> buffers \<times> event list) option" where
  "sel_round tcpsock udpsock failed r w b =
     (let tset = (if failed then rset w
                  else map (\<lambda>i. rset w ! i \<and> int i \<le> max_fd w \<and> ready r (int i)) [0 ..< FD_SETSIZE])
      in if \<not> failed \<and> True \<notin> set tset then Some (w, b, [])
         else sel_for tcpsock udpsock r tset 0 w b)"

text \<open>The loop of \<open>main\<close> over the rounds, with the events of each of them.\<close>

fun sel_run :: "int \<Rightarrow> int \<Rightarrow> (bool \<times> round) list \<Rightarrow> fdset \<Rightarrow> buffers \<Rightarrow> (fdset \<times> buffers \<times> event list list) option" where
  "sel_run tcpsock udpsock [] w b = Some (w, b, [])"
| "sel_run tcpsock udpsock ((failed, r) # rs) w b = do {
     (w, b, es) \<leftarrow> sel_round tcpsock udpsock failed r w b;
     (w, b, ess) \<leftarrow> sel_run tcpsock udpsock rs w b;
     Some (w, b, es # ess) }"

section \<open>poll\<close>

text \<open>The array of descriptors with their \<^verbatim>\<open>revents\<close>, and how many of its elements are used.\<close>

record pollset =
  pfds :: "(int \<times> bool) list"
  nfds :: nat

definition poll_add :: "int \<Rightarrow> pollset \<Rightarrow> pollset option" where
  "poll_add fd p =
     (if nfds p < length (pfds p)
      then Some (p\<lparr>pfds := (pfds p)[nfds p := (fd, snd (pfds p ! nfds p))], nfds := nfds p + 1\<rparr>)
      else None)"

text \<open>Removing the element \<open>i\<close>: the loop that moves the later ones down reads one past the last.\<close>

fun shift_down :: "(int \<times> bool) list \<Rightarrow> nat \<Rightarrow> nat \<Rightarrow> (int \<times> bool) list option" where
  "shift_down xs s 0 = Some xs"
| "shift_down xs s (Suc k) =
     (if s + 1 < length xs then shift_down (xs[s := xs ! (s + 1)]) (s + 1) k else None)"

definition poll_del_at :: "nat \<Rightarrow> pollset \<Rightarrow> pollset option" where
  "poll_del_at i p = do {
     xs \<leftarrow> shift_down ((pfds p)[i := (-1, snd (pfds p ! i))]) i (nfds p - i);
     Some (p\<lparr>pfds := xs, nfds := nfds p - 1\<rparr>) }"

definition poll_start :: "int \<Rightarrow> int \<Rightarrow> (int \<times> bool) list \<Rightarrow> pollset" where
  "poll_start tcpsock udpsock garbage =
     \<lparr>pfds = garbage[0 := (tcpsock, snd (garbage ! 0)), 1 := (udpsock, snd (garbage ! 1))], nfds = 2\<rparr>"

function poll_for :: "int \<Rightarrow> int \<Rightarrow> round \<Rightarrow> nat \<Rightarrow> pollset \<Rightarrow> buffers \<Rightarrow> (pollset \<times> buffers \<times> event list) option" where
  "poll_for tcpsock udpsock r i p b =
     (if \<not> i < nfds p then Some (p, b, [])
      else if \<not> i < length (pfds p) \<or> POLL_MAX \<le> i then None
      else let (fd, rev) = pfds p ! i
        in if \<not> rev then poll_for tcpsock udpsock r (i + 1) p b
        else case (if fd = tcpsock then do { p \<leftarrow> poll_add (accepted r) p; Some (p, b, New_Client (accepted r)) }
                   else if fd = udpsock then do { (b, e) \<leftarrow> recv_udp r b; Some (p, b, e) }
                   else if tcp_in r fd = Some [] then do { p \<leftarrow> poll_del_at i p; Some (p, b, Disconnect fd) }
                   else do { (b, e) \<leftarrow> recv_tcp r fd b; Some (p, b, e) }) of
            None \<Rightarrow> None
          | Some (p, b, e) \<Rightarrow>
              (case poll_for tcpsock udpsock r (i + 1) p b of None \<Rightarrow> None
               | Some (p, b, es) \<Rightarrow> Some (p, b, e # es)))"
  by pat_completeness auto
termination
  by (relation "measure (\<lambda>(tcpsock, udpsock, r, i, p, b). POLL_MAX - i)") auto

declare poll_for.simps [simp del]

text \<open>\<^verbatim>\<open>poll\<close> stores the answer for the used elements; an error leaves the array as it is.\<close>

definition poll_round :: "int \<Rightarrow> int \<Rightarrow> bool \<Rightarrow> round \<Rightarrow> pollset \<Rightarrow> buffers
    \<Rightarrow> (pollset \<times> buffers \<times> event list) option" where
  "poll_round tcpsock udpsock failed r p b =
     (let p' = (if failed then p else p\<lparr>pfds :=
                 map (\<lambda>(fd, _). (fd, ready r fd)) (take (nfds p) (pfds p)) @ drop (nfds p) (pfds p)\<rparr>)
      in if \<not> failed \<and> (\<forall>x \<in> set (take (nfds p) (pfds p)). \<not> ready r (fst x)) then Some (p', b, [])
         else poll_for tcpsock udpsock r 0 p' b)"

section \<open>epoll\<close>

text \<open>The interest list is the kernel's; a descriptor that is no descriptor is refused.\<close>

definition epoll_add :: "int \<Rightarrow> int list \<Rightarrow> int list" where
  "epoll_add fd l = (if 0 \<le> fd \<and> fd \<notin> set l then l @ [fd] else l)"

fun epoll_for :: "int \<Rightarrow> int \<Rightarrow> round \<Rightarrow> int list \<Rightarrow> int list \<Rightarrow> buffers \<Rightarrow> (int list \<times> buffers \<times> event list) option" where
  "epoll_for tcpsock udpsock r [] l b = Some (l, b, [])"
| "epoll_for tcpsock udpsock r (fd # fds) l b = do {
     (l, b, e) \<leftarrow>
       (if fd = udpsock then do { (b, e) \<leftarrow> recv_udp r b; Some (l, b, e) }
        else if fd = tcpsock then Some (epoll_add (accepted r) l, b, New_Client (accepted r))
        else if tcp_in r fd = Some [] then Some (removeAll fd l, b, Disconnect fd)
        else do { (b, e) \<leftarrow> recv_tcp r fd b; Some (l, b, e) });
     (l, b, es) \<leftarrow> epoll_for tcpsock udpsock r fds l b;
     Some (l, b, e # es) }"

text \<open>At most ten events are taken in one round.\<close>

definition epoll_round :: "int \<Rightarrow> int \<Rightarrow> round \<Rightarrow> int list \<Rightarrow> buffers \<Rightarrow> (int list \<times> buffers \<times> event list) option" where
  "epoll_round tcpsock udpsock r l b =
     epoll_for tcpsock udpsock r (take 10 (filter (ready r) l)) l b"

section \<open>Watched descriptors\<close>

text \<open>What the events say about the connections, and what that means for a set of descriptors.\<close>

datatype conn = Opened int | Closed int

fun conns :: "event list \<Rightarrow> conn list" where
  "conns [] = []"
| "conns (New_Client fd # es) = Opened fd # conns es"
| "conns (Disconnect fd # es) = Closed fd # conns es"
| "conns (_ # es) = conns es"

fun track :: "conn list \<Rightarrow> int set \<Rightarrow> int set" where
  "track [] W = W"
| "track (Opened fd # cs) W = track cs (insert fd W)"
| "track (Closed fd # cs) W = track cs (W - {fd})"

fun run_conns :: "(int \<Rightarrow> 's \<Rightarrow> 's option) \<Rightarrow> (int \<Rightarrow> 's \<Rightarrow> 's option) \<Rightarrow> conn list \<Rightarrow> 's \<Rightarrow> 's option" where
  "run_conns add del [] s = Some s"
| "run_conns add del (Opened fd # cs) s = do { s \<leftarrow> add fd s; run_conns add del cs s }"
| "run_conns add del (Closed fd # cs) s = do { s \<leftarrow> del fd s; run_conns add del cs s }"

text \<open>A history that can happen: opened descriptors have room, closed ones are open.\<close>

fun conns_ok :: "(int set \<Rightarrow> int \<Rightarrow> bool) \<Rightarrow> conn list \<Rightarrow> int set \<Rightarrow> bool" where
  "conns_ok room [] W = True"
| "conns_ok room (Opened fd # cs) W = (room W fd \<and> conns_ok room cs (insert fd W))"
| "conns_ok room (Closed fd # cs) W = (fd \<in> W \<and> conns_ok room cs (W - {fd}))"

locale watch_set =
  fixes invar :: "'s \<Rightarrow> bool"
    and watched :: "'s \<Rightarrow> int set"
    and add del :: "int \<Rightarrow> 's \<Rightarrow> 's option"
    and room :: "int set \<Rightarrow> int \<Rightarrow> bool"
  assumes add_watched: "invar s \<Longrightarrow> room (watched s) fd \<Longrightarrow>
        \<exists>s'. add fd s = Some s' \<and> invar s' \<and> watched s' = insert fd (watched s)"
    and del_watched: "invar s \<Longrightarrow> fd \<in> watched s \<Longrightarrow>
        \<exists>s'. del fd s = Some s' \<and> invar s' \<and> watched s' = watched s - {fd}"
begin

lemma history:
  "invar s \<Longrightarrow> conns_ok room cs (watched s) \<Longrightarrow>
   \<exists>s'. run_conns add del cs s = Some s' \<and> invar s' \<and> watched s' = track cs (watched s)"
proof (induction cs arbitrary: s)
  case (Cons c cs)
  show ?case
  proof (cases c)
    case (Opened fd)
    then obtain s' where "add fd s = Some s'" "invar s'" "watched s' = insert fd (watched s)"
      using add_watched [of s fd] Cons.prems by auto
    with Cons.IH [of s'] Cons.prems(2) Opened show ?thesis by simp
  next
    case (Closed fd)
    then obtain s' where "del fd s = Some s'" "invar s'" "watched s' = watched s - {fd}"
      using del_watched [of s fd] Cons.prems by auto
    with Cons.IH [of s'] Cons.prems(2) Closed show ?thesis by simp
  qed
qed simp

end

text \<open>The set of \<^verbatim>\<open>select\<close>.\<close>

definition sel_watched :: "fdset \<Rightarrow> int set" where
  "sel_watched w = {fd. fd_in_range fd \<and> rset w ! nat fd}"

definition sel_ok :: "fdset \<Rightarrow> bool" where
  "sel_ok w \<longleftrightarrow> length (rset w) = FD_SETSIZE \<and> max_fd w < int FD_SETSIZE \<and> (\<forall>fd \<in> sel_watched w. fd \<le> max_fd w)"

interpretation sel: watch_set sel_ok sel_watched sel_add sel_del "\<lambda>W. fd_in_range"
proof
  fix w fd
  assume w: "sel_ok w"
  show "\<exists>w'. sel_add fd w = Some w' \<and> sel_ok w' \<and> sel_watched w' = insert fd (sel_watched w)"
    if "fd_in_range fd"
  proof -
    have "sel_watched (set_max fd (w\<lparr>rset := (rset w)[nat fd := True]\<rparr>)) = insert fd (sel_watched w)"
      using w that
      by (auto simp: sel_watched_def set_max_def sel_ok_def fd_in_range_def nth_list_update eq_nat_nat_iff)
    then show ?thesis
      using w that by (auto simp: sel_add_def sel_ok_def) (auto simp: set_max_def fd_in_range_def)
  qed
  show "\<exists>w'. sel_del fd w = Some w' \<and> sel_ok w' \<and> sel_watched w' = sel_watched w - {fd}"
    if "fd \<in> sel_watched w"
  proof -
    have "sel_watched (w\<lparr>rset := (rset w)[nat fd := False]\<rparr>) = sel_watched w - {fd}"
      using w that
      by (auto simp: sel_watched_def sel_ok_def fd_in_range_def nth_list_update eq_nat_nat_iff
          split: if_splits)
    then show ?thesis using w that by (auto simp: sel_del_def sel_ok_def sel_watched_def)
  qed
qed

text \<open>
  The array of \<^verbatim>\<open>poll\<close>; the removal of a descriptor is the removal of its element. One element has
  to stay free, since the shift reads the one behind the last.
\<close>

definition poll_watched :: "pollset \<Rightarrow> int set" where
  "poll_watched p = set (map fst (take (nfds p) (pfds p)))"

definition poll_ok :: "pollset \<Rightarrow> bool" where
  "poll_ok p \<longleftrightarrow> length (pfds p) = POLL_MAX \<and> nfds p < POLL_MAX \<and> distinct (map fst (take (nfds p) (pfds p)))"

definition poll_del :: "int \<Rightarrow> pollset \<Rightarrow> pollset option" where
  "poll_del fd p = poll_del_at (length (takeWhile (\<lambda>x. fst x \<noteq> fd) (pfds p))) p"

lemma shift_down_eq:
  "s + k < length xs \<Longrightarrow>
   \<exists>ys. shift_down xs s k = Some ys \<and> length ys = length xs
     \<and> (\<forall>j. ys ! j = (if s \<le> j \<and> j < s + k then xs ! (j + 1) else xs ! j))"
proof (induction xs s k rule: shift_down.induct)
  case (2 xs s k)
  let ?xs = "xs[s := xs ! (s + 1)]"
  obtain ys where ys: "shift_down ?xs (s + 1) k = Some ys" "length ys = length ?xs"
    "\<forall>j. ys ! j = (if s + 1 \<le> j \<and> j < s + 1 + k then ?xs ! (j + 1) else ?xs ! j)"
    using 2 by auto
  have "\<forall>j. ys ! j = (if s \<le> j \<and> j < s + Suc k then xs ! (j + 1) else xs ! j)"
    using ys(3) "2.prems" by (auto simp: nth_list_update)
  with ys(1,2) "2.prems" show ?case by auto
qed auto

lemma poll_del_at_eq:
  assumes "poll_ok p" "i < nfds p"
  shows "\<exists>p'. poll_del_at i p = Some p' \<and> nfds p' = nfds p - 1 \<and> length (pfds p') = POLL_MAX
    \<and> map fst (take (nfds p') (pfds p')) =
        take i (map fst (take (nfds p) (pfds p))) @ drop (i + 1) (map fst (take (nfds p) (pfds p)))"
proof -
  let ?xs = "(pfds p)[i := (-1, snd (pfds p ! i))]"
  have len: "length (pfds p) = POLL_MAX" "nfds p < POLL_MAX" using assms(1) by (simp_all add: poll_ok_def)
  then obtain ys where ys: "shift_down ?xs i (nfds p - i) = Some ys" "length ys = POLL_MAX"
    "\<And>j. ys ! j = (if i \<le> j \<and> j < i + (nfds p - i) then ?xs ! (j + 1) else ?xs ! j)"
    using shift_down_eq [of i "nfds p - i" ?xs] assms(2) by auto
  have "map fst (take (nfds p - 1) ys) =
      take i (map fst (take (nfds p) (pfds p))) @ drop (i + 1) (map fst (take (nfds p) (pfds p)))"
  proof (intro nth_equalityI)
    show "length (map fst (take (nfds p - 1) ys)) =
        length (take i (map fst (take (nfds p) (pfds p))) @ drop (i + 1) (map fst (take (nfds p) (pfds p))))"
      using ys(2) assms(2) len by simp
    fix j
    assume "j < length (map fst (take (nfds p - 1) ys))"
    then have j: "j < nfds p - 1" by simp
    then have "map fst (take (nfds p - 1) ys) ! j = fst (ys ! j)" using ys(2) len by simp
    then show "map fst (take (nfds p - 1) ys) ! j =
        (take i (map fst (take (nfds p) (pfds p))) @ drop (i + 1) (map fst (take (nfds p) (pfds p)))) ! j"
      using j assms(2) len by (auto simp: ys(3) nth_append nth_list_update)
  qed
  with ys show ?thesis by (auto simp: poll_del_at_def)
qed

lemma remove_index:
  assumes "distinct xs" "i < length xs"
  shows "set (take i xs @ drop (i + 1) xs) = set xs - {xs ! i}" "distinct (take i xs @ drop (i + 1) xs)"
proof -
  have "xs = take i xs @ xs ! i # drop (i + 1) xs" using id_take_nth_drop [OF assms(2)] by simp
  with assms(1) show "set (take i xs @ drop (i + 1) xs) = set xs - {xs ! i}"
    "distinct (take i xs @ drop (i + 1) xs)"
    by (metis (no_types, lifting) Diff_insert_absorb Un_insert_right distinct.simps(2) distinct_append
        list.simps(15) set_append Un_iff insert_iff disjoint_insert(2), metis distinct.simps(2) distinct_append disjoint_insert(2) list.simps(15))
qed

interpretation epoll: watch_set distinct set "\<lambda>fd l. Some (epoll_add fd l)" "\<lambda>fd l. Some (removeAll fd l)"
  "\<lambda>W fd. 0 \<le> fd"
  by unfold_locales (auto simp: epoll_add_def distinct_removeAll)

lemma find_index:
  assumes "fd \<in> set (map fst (take n xs))"
  shows "length (takeWhile (\<lambda>x. fst x \<noteq> fd) xs) < n"
    "map fst (take n xs) ! length (takeWhile (\<lambda>x. fst x \<noteq> fd) xs) = fd"
proof -
  let ?i = "length (takeWhile (\<lambda>x. fst x \<noteq> fd) xs)"
  from assms obtain j where j: "j < n" "j < length xs" "fst (xs ! j) = fd"
    by (auto simp: in_set_conv_nth)
  have "\<not> j < ?i"
  proof
    assume "j < ?i"
    then have "takeWhile (\<lambda>x. fst x \<noteq> fd) xs ! j \<in> set (takeWhile (\<lambda>x. fst x \<noteq> fd) xs)" by (rule nth_mem)
    with \<open>j < ?i\<close> j(3) show False by (auto dest: set_takeWhileD simp: takeWhile_nth)
  qed
  then show n: "?i < n" using j(1) by simp
  have "?i < length xs" using \<open>\<not> j < ?i\<close> j(2) by simp
  then have "fst (xs ! ?i) = fd" using nth_length_takeWhile [of "\<lambda>x. fst x \<noteq> fd" xs] by simp
  then show "map fst (take n xs) ! ?i = fd" using n \<open>?i < length xs\<close> by simp
qed

interpretation poll: watch_set poll_ok poll_watched poll_add poll_del
  "\<lambda>W fd. fd \<notin> W \<and> card W < POLL_MAX - 1"
proof
  fix p fd
  assume p: "poll_ok p"
  let ?fds = "map fst (take (nfds p) (pfds p))"
  have len: "length ?fds = nfds p" "distinct ?fds" using p by (simp_all add: poll_ok_def)
  show "\<exists>p'. poll_add fd p = Some p' \<and> poll_ok p' \<and> poll_watched p' = insert fd (poll_watched p)"
    if "fd \<notin> poll_watched p \<and> card (poll_watched p) < POLL_MAX - 1"
  proof -
    have "card (poll_watched p) = nfds p"
      using distinct_card [OF len(2)] len(1) by (simp add: poll_watched_def)
    then have n: "nfds p + 1 < POLL_MAX" using that by simp
    let ?p = "p\<lparr>pfds := (pfds p)[nfds p := (fd, snd (pfds p ! nfds p))], nfds := nfds p + 1\<rparr>"
    have "map fst (take (nfds ?p) (pfds ?p)) = ?fds @ [fd]"
      using p n by (simp add: take_Suc_conv_app_nth poll_ok_def)
    then have "poll_ok ?p \<and> poll_watched ?p = insert fd (poll_watched p)"
      using p n that unfolding poll_ok_def poll_watched_def by simp
    then show ?thesis using p by (auto simp: poll_add_def poll_ok_def)
  qed
  show "\<exists>p'. poll_del fd p = Some p' \<and> poll_ok p' \<and> poll_watched p' = poll_watched p - {fd}"
    if "fd \<in> poll_watched p"
  proof -
    let ?i = "length (takeWhile (\<lambda>x. fst x \<noteq> fd) (pfds p))"
    note i = find_index [of fd "nfds p" "pfds p", folded poll_watched_def, OF that]
    obtain p' where p': "poll_del_at ?i p = Some p'" "nfds p' = nfds p - 1" "length (pfds p') = POLL_MAX"
      "map fst (take (nfds p') (pfds p')) = take ?i ?fds @ drop (?i + 1) ?fds"
      using poll_del_at_eq [OF p i(1)] by blast
    have "?i < length ?fds" using i(1) len(1) by simp
    from remove_index [OF len(2) this] i(2) p p' show ?thesis
      unfolding poll_ok_def poll_watched_def poll_del_def by (intro exI [of _ p']) (simp, linarith)
  qed
qed

section \<open>The select loop\<close>

definition buffers_ok :: "buffers \<Rightarrow> bool" where
  "buffers_ok b \<longleftrightarrow> length (udpbuf b) = 256 \<and> length (tcpbuf b) = 256 \<and> udpbuf b ! 255 = 0 \<and> tcpbuf b ! 255 = 0"

text \<open>The kernel's answers of a round: descriptors in range, messages shorter than the buffers.\<close>

definition round_ok :: "round \<Rightarrow> bool" where
  "round_ok r \<longleftrightarrow> fd_in_range (accepted r)
     \<and> (\<forall>bs. udp_in r = Some bs \<longrightarrow> length bs < 256) \<and> (\<forall>fd bs. tcp_in r fd = Some bs \<longrightarrow> length bs < 256)"

lemma fill_ok:
  assumes "length buf = 256" "buf ! 255 = 0" "\<forall>bs. answer = Some bs \<longrightarrow> length bs < 256"
  shows "\<exists>buf'. fill answer buf = Some buf' \<and> length buf' = 256 \<and> buf' ! 255 = 0 \<and> terminated buf'"
proof -
  have t: "terminated buf'" if "length buf' = 256" "buf' ! 255 = 0" for buf' :: "byte list"
    using that nth_mem [of 255 buf'] by simp
  show ?thesis
  proof (cases answer)
    case None
    then show ?thesis using assms t by (simp add: fill_def)
  next
    case (Some bs)
    then have "length (bs @ drop (length bs) buf) = 256" "(bs @ drop (length bs) buf) ! 255 = 0"
      using assms by (simp_all add: nth_append)
    with t [of "bs @ drop (length bs) buf"] Some assms show ?thesis by (simp add: fill_def st_bytes_def)
  qed
qed

lemma recv_ok:
  assumes "buffers_ok b" "round_ok r"
  shows "\<exists>b' s. recv_udp r b = Some (b', Udp_Text s) \<and> buffers_ok b'"
    "\<exists>b' s. recv_tcp r fd b = Some (b', Tcp_Text fd s) \<and> buffers_ok b'"
  using fill_ok [of "udpbuf b" "udp_in r"] fill_ok [of "tcpbuf b" "tcp_in r fd"] assms
  by (auto simp: recv_udp_def recv_tcp_def buffers_ok_def round_ok_def strlen_eq)

text \<open>One ready descriptor: what changes, and which event says so.\<close>

lemma sel_serve_ok:
  assumes "sel_ok w" "buffers_ok b" "round_ok r" "i \<in> sel_watched w"
  shows "\<exists>w' b' e. sel_serve tcp udp r i w b = Some (w', b', e) \<and> sel_ok w' \<and> buffers_ok b'
    \<and> (\<forall>es. run_conns sel_add sel_del (conns (e # es)) w = run_conns sel_add sel_del (conns es) w')
    \<and> (\<forall>es. conns_ok (\<lambda>W. fd_in_range) (conns (e # es)) (sel_watched w) =
             conns_ok (\<lambda>W. fd_in_range) (conns es) (sel_watched w'))
    \<and> sel_watched w - {i} \<subseteq> sel_watched w'
    \<and> (i \<in> {tcp, udp} \<longrightarrow> (\<forall>fd. e \<noteq> Disconnect fd))
    \<and> (i \<notin> {tcp, udp} \<longrightarrow> e = Disconnect i \<or> (\<exists>s. e = Tcp_Text i s))"
proof -
  note add = sel.add_watched [OF assms(1), of "accepted r"] and del = sel.del_watched [OF assms(1,4)]
  note recv = recv_ok [OF assms(2,3)]
  have acc: "fd_in_range (accepted r)" using assms(3) by (simp add: round_ok_def)
  consider "i = tcp" | "i \<noteq> tcp" "i = udp" | "i \<noteq> tcp" "i \<noteq> udp" "tcp_in r i = Some []"
    | "i \<noteq> tcp" "i \<noteq> udp" "tcp_in r i \<noteq> Some []" by blast
  then show ?thesis
  proof cases
    case 1
    with add [OF acc] acc assms(2) show ?thesis by (fastforce simp: sel_serve_def)
  next
    case 2
    with recv(1) assms(1) show ?thesis by (fastforce simp: sel_serve_def)
  next
    case 3
    with del assms(2,4) show ?thesis by (fastforce simp: sel_serve_def)
  next
    case 4
    with recv(2) [of i] assms(1) show ?thesis by (fastforce simp: sel_serve_def)
  qed
qed

lemma track_keeps: "fd \<in> W \<Longrightarrow> Closed fd \<notin> set cs \<Longrightarrow> fd \<in> track cs W"
  by (induction cs W rule: track.induct) auto

lemma conns_Closed: "Closed fd \<in> set (conns es) \<longleftrightarrow> Disconnect fd \<in> set es"
  by (induction es rule: conns.induct) auto

definition served :: "int \<Rightarrow> event list \<Rightarrow> bool" where
  "served fd es \<longleftrightarrow> Disconnect fd \<in> set es \<or> (\<exists>s. Tcp_Text fd s \<in> set es)"

lemma range_split:
  fixes i n :: nat
  assumes "i < n"
  shows "(\<forall>j < n. i \<le> j \<longrightarrow> P j) \<longleftrightarrow> P i \<and> (\<forall>j < n. i + 1 \<le> j \<longrightarrow> P j)"
proof
  assume "P i \<and> (\<forall>j < n. i + 1 \<le> j \<longrightarrow> P j)"
  then show "\<forall>j < n. i \<le> j \<longrightarrow> P j" by (metis Suc_eq_plus1 Suc_leI le_neq_implies_less)
qed (use assms in simp)

lemma sel_for_ok:
  assumes "round_ok r" "length tset = FD_SETSIZE"
  shows "sel_ok w \<Longrightarrow> buffers_ok b \<Longrightarrow> \<forall>j < FD_SETSIZE. i \<le> j \<longrightarrow> tset ! j \<longrightarrow> int j \<in> sel_watched w \<Longrightarrow>
    \<exists>w' b' es. sel_for tcp udp r tset i w b = Some (w', b', es) \<and> buffers_ok b'
      \<and> run_conns sel_add sel_del (conns es) w = Some w'
      \<and> conns_ok (\<lambda>W. fd_in_range) (conns es) (sel_watched w)
      \<and> length es = length (filter (\<lambda>j. tset ! j) [i ..< FD_SETSIZE])
      \<and> Disconnect tcp \<notin> set es \<and> Disconnect udp \<notin> set es
      \<and> (\<forall>j < FD_SETSIZE. i \<le> j \<longrightarrow> tset ! j \<longrightarrow> int j \<notin> {tcp, udp} \<longrightarrow> served (int j) es)"
proof (induction "FD_SETSIZE - i" arbitrary: i w b rule: less_induct)
  case less
  show ?case
  proof (cases "int i \<le> max_fd w")
    case False
    have "\<not> tset ! j" if "j < FD_SETSIZE" "i \<le> j" for j
      using less.prems(1,3) that False by (fastforce simp: sel_ok_def)
    then show ?thesis using False less.prems(2) by (subst sel_for.simps) (auto simp: filter_empty_conv)
  next
    case True
    then have i: "i < FD_SETSIZE" using less.prems(1) by (simp add: sel_ok_def)
    then have up: "[i ..< FD_SETSIZE] = i # [i + 1 ..< FD_SETSIZE]" by (simp add: upt_conv_Cons)
    note split = range_split [OF i]
    show ?thesis
    proof (cases "tset ! i")
      case F: False
      from less.hyps [of "i + 1" w b] i less.prems F True show ?thesis
        unfolding split up by (subst sel_for.simps) auto
    next
      case T: True
      then have "int i \<in> sel_watched w" using less.prems(3) i by simp
      from sel_serve_ok [OF less.prems(1,2) assms(1) this, of tcp udp] obtain w1 b1 e where
        e: "sel_serve tcp udp r (int i) w b = Some (w1, b1, e)" "sel_ok w1" "buffers_ok b1"
        "\<forall>es. run_conns sel_add sel_del (conns (e # es)) w = run_conns sel_add sel_del (conns es) w1"
        "\<forall>es. conns_ok (\<lambda>W. fd_in_range) (conns (e # es)) (sel_watched w) =
              conns_ok (\<lambda>W. fd_in_range) (conns es) (sel_watched w1)"
        "sel_watched w - {int i} \<subseteq> sel_watched w1"
        "int i \<in> {tcp, udp} \<longrightarrow> (\<forall>fd. e \<noteq> Disconnect fd)"
        "int i \<notin> {tcp, udp} \<longrightarrow> e = Disconnect (int i) \<or> (\<exists>s. e = Tcp_Text (int i) s)" by blast
      have "\<forall>j < FD_SETSIZE. i + 1 \<le> j \<longrightarrow> tset ! j \<longrightarrow> int j \<in> sel_watched w1"
        using less.prems(3) e(6) by fastforce
      from less.hyps [OF _ e(2,3) this] i obtain w2 b2 es where
        es: "sel_for tcp udp r tset (i + 1) w1 b1 = Some (w2, b2, es)" "buffers_ok b2"
        "run_conns sel_add sel_del (conns es) w1 = Some w2"
        "conns_ok (\<lambda>W. fd_in_range) (conns es) (sel_watched w1)"
        "length es = length (filter (\<lambda>j. tset ! j) [i + 1 ..< FD_SETSIZE])"
        "Disconnect tcp \<notin> set es" "Disconnect udp \<notin> set es"
        "\<forall>j < FD_SETSIZE. i + 1 \<le> j \<longrightarrow> tset ! j \<longrightarrow> int j \<notin> {tcp, udp} \<longrightarrow> served (int j) es" by force
      have "sel_for tcp udp r tset i w b = Some (w2, b2, e # es)"
        using True i T e(1) es(1) by (subst sel_for.simps) simp
      moreover have "Disconnect tcp \<notin> set (e # es)" "Disconnect udp \<notin> set (e # es)"
        using e(7,8) es(6,7) by auto
      moreover have "int i \<notin> {tcp, udp} \<longrightarrow> served (int i) (e # es)" using e(8) by (auto simp: served_def)
      moreover have "served (int j) es \<Longrightarrow> served (int j) (e # es)" for j by (auto simp: served_def)
      ultimately show ?thesis
        using e(4,5) es T unfolding split up by (intro exI [of _ w2] exI [of _ b2] exI [of _ "e # es"]) auto
    qed
  qed
qed

lemma sel_watched_range: "int ` {j. j < FD_SETSIZE \<and> int j \<in> sel_watched w \<and> P (int j)} = {fd \<in> sel_watched w. P fd}"
proof -
  have "fd \<in> int ` {j. j < FD_SETSIZE \<and> int j \<in> sel_watched w \<and> P (int j)}" if "fd \<in> sel_watched w" "P fd" for fd
    using that by (intro image_eqI [of _ _ "nat fd"]) (auto simp: sel_watched_def fd_in_range_def)
  then show ?thesis by auto
qed

lemma sel_for_none:
  "max_fd w < int FD_SETSIZE \<Longrightarrow> \<forall>j < FD_SETSIZE. i \<le> j \<longrightarrow> \<not> tset ! j \<Longrightarrow>
   sel_for tcp udp r tset i w b = Some (w, b, [])"
proof (induction "FD_SETSIZE - i" arbitrary: i rule: less_induct)
  case less
  then show ?case by (subst sel_for.simps) auto
qed

text \<open>The number of elements set, and the shortcut when nothing is ready.\<close>

lemma ready_count:
  assumes "\<And>j. j < FD_SETSIZE \<Longrightarrow> ts ! j \<longleftrightarrow> int j \<in> sel_watched w \<and> ready r (int j)"
  shows "length (filter (\<lambda>j. ts ! j) [0 ..< FD_SETSIZE]) = card {fd \<in> sel_watched w. ready r fd}"
proof -
  have "set (filter (\<lambda>j. ts ! j) [0 ..< FD_SETSIZE]) =
      {j. j < FD_SETSIZE \<and> int j \<in> sel_watched w \<and> ready r (int j)}"
    using assms by auto
  then have "length (filter (\<lambda>j. ts ! j) [0 ..< FD_SETSIZE]) =
      card {j. j < FD_SETSIZE \<and> int j \<in> sel_watched w \<and> ready r (int j)}"
    using distinct_card [of "filter (\<lambda>j. ts ! j) [0 ..< FD_SETSIZE]"]
    by (simp only: distinct_filter distinct_upt simp_thms)
  also have "\<dots> = card (int ` {j. j < FD_SETSIZE \<and> int j \<in> sel_watched w \<and> ready r (int j)})"
    by (simp add: card_image)
  finally show ?thesis by (simp only: sel_watched_range)
qed

lemma sel_round_for:
  assumes "sel_ok w"
  shows "sel_round tcp udp False r w b = sel_for tcp udp r
    (map (\<lambda>i. rset w ! i \<and> int i \<le> max_fd w \<and> ready r (int i)) [0 ..< FD_SETSIZE]) 0 w b"
proof -
  define ts where "ts = map (\<lambda>i. rset w ! i \<and> int i \<le> max_fd w \<and> ready r (int i)) [0 ..< FD_SETSIZE]"
  have len: "length ts = FD_SETSIZE" by (simp add: ts_def)
  have round: "sel_round tcp udp False r w b =
      (if True \<notin> set ts then Some (w, b, []) else sel_for tcp udp r ts 0 w b)"
    by (simp only: sel_round_def Let_def ts_def if_False simp_thms)
  show ?thesis
  proof (cases "True \<in> set ts")
    case False
    then have "\<not> ts ! j" if "j < FD_SETSIZE" for j using that nth_mem [of j ts] len by metis
    then have "sel_for tcp udp r ts 0 w b = Some (w, b, [])"
      using assms by (intro sel_for_none) (auto simp: sel_ok_def)
    with False round show ?thesis by (simp add: ts_def)
  qed (use round in \<open>simp add: ts_def\<close>)
qed

lemma sel_round_ok:
  assumes "round_ok r" "sel_ok w" "buffers_ok b" "{tcp, udp} \<subseteq> sel_watched w"
  shows "\<exists>w' b' es. sel_round tcp udp False r w b = Some (w', b', es) \<and> sel_ok w' \<and> buffers_ok b'
    \<and> sel_watched w' = track (conns es) (sel_watched w) \<and> {tcp, udp} \<subseteq> sel_watched w'
    \<and> length es = card {fd \<in> sel_watched w. ready r fd}
    \<and> (\<forall>fd \<in> sel_watched w. ready r fd \<longrightarrow> fd \<notin> {tcp, udp} \<longrightarrow> served fd es)"
proof -
  define ts where "ts = map (\<lambda>i. rset w ! i \<and> int i \<le> max_fd w \<and> ready r (int i)) [0 ..< FD_SETSIZE]"
  have t: "ts ! j \<longleftrightarrow> int j \<in> sel_watched w \<and> ready r (int j)" if "j < FD_SETSIZE" for j
    using that assms(2) by (auto simp: sel_watched_def sel_ok_def fd_in_range_def ts_def)
  have len: "length ts = FD_SETSIZE" by (simp add: ts_def)
  have wat: "fd \<in> sel_watched w \<Longrightarrow> nat fd < FD_SETSIZE \<and> int (nat fd) = fd" for fd
    by (auto simp: sel_watched_def fd_in_range_def)
  have "\<forall>j < FD_SETSIZE. 0 \<le> j \<longrightarrow> ts ! j \<longrightarrow> int j \<in> sel_watched w" using t by blast
  from sel_for_ok [OF assms(1) len assms(2,3) this, of tcp udp] obtain w' b' es where
    es: "sel_for tcp udp r ts 0 w b = Some (w', b', es)" "buffers_ok b'"
    "run_conns sel_add sel_del (conns es) w = Some w'"
    "conns_ok (\<lambda>W. fd_in_range) (conns es) (sel_watched w)"
    "length es = length (filter (\<lambda>j. ts ! j) [0 ..< FD_SETSIZE])"
    "Disconnect tcp \<notin> set es" "Disconnect udp \<notin> set es"
    "\<forall>j < FD_SETSIZE. ts ! j \<longrightarrow> int j \<notin> {tcp, udp} \<longrightarrow> served (int j) es" by auto
  have hist: "sel_ok w'" "sel_watched w' = track (conns es) (sel_watched w)"
    using sel.history [OF assms(2) es(4)] es(3) by auto
  moreover have "{tcp, udp} \<subseteq> sel_watched w'"
    using hist(2) assms(4) es(6,7) by (auto simp: conns_Closed intro!: track_keeps)
  moreover have "length es = card {fd \<in> sel_watched w. ready r fd}"
    unfolding es(5) using t by (rule ready_count)
  moreover have "\<forall>fd \<in> sel_watched w. ready r fd \<longrightarrow> fd \<notin> {tcp, udp} \<longrightarrow> served fd es"
  proof (intro ballI impI)
    fix fd
    assume "fd \<in> sel_watched w" "ready r fd" "fd \<notin> {tcp, udp}"
    then show "served fd es" using es(8) [rule_format, of "nat fd"] t [of "nat fd"] wat [of fd] by simp
  qed
  moreover have "sel_round tcp udp False r w b = Some (w', b', es)"
    using sel_round_for [OF assms(2), of tcp udp r b] es(1) by (simp add: ts_def)
  ultimately show ?thesis using es(2) by blast
qed

lemma sel_start_ok:
  assumes "fd_in_range tcp" "fd_in_range udp"
  shows "\<exists>w. sel_start tcp udp = Some w \<and> sel_ok w \<and> sel_watched w = {tcp, udp}"
proof -
  define v where
    "v = set_max (if tcp > udp then tcp else udp) \<lparr>rset = replicate FD_SETSIZE False, max_fd = -1\<rparr>"
  have "sel_ok v" "sel_watched v = {}"
    using assms by (auto simp: v_def sel_ok_def sel_watched_def set_max_def fd_in_range_def)
  moreover have "sel_start tcp udp = do { w \<leftarrow> sel_add tcp v; sel_add udp w }"
    by (simp only: sel_start_def Let_def v_def)
  ultimately show ?thesis
    using sel.history [of v "[Opened tcp, Opened udp]"] assms
    by (auto simp: insert_commute split: bind_splits)
qed

lemma track_append: "track (cs @ ds) W = track ds (track cs W)"
  by (induction cs W rule: track.induct) auto

lemma conns_append: "conns (es @ fs) = conns es @ conns fs"
  by (induction es rule: conns.induct) auto

lemma sel_run_ok:
  "\<forall>x \<in> set rs. \<not> fst x \<and> round_ok (snd x) \<Longrightarrow> sel_ok w \<Longrightarrow> buffers_ok b \<Longrightarrow> {tcp, udp} \<subseteq> sel_watched w \<Longrightarrow>
   \<exists>w' b' ess. sel_run tcp udp rs w b = Some (w', b', ess) \<and> length ess = length rs
     \<and> sel_watched w' = track (conns (concat ess)) (sel_watched w) \<and> {tcp, udp} \<subseteq> sel_watched w'"
proof (induction rs arbitrary: w b)
  case (Cons x rs)
  then obtain r where x: "x = (False, r)" "round_ok r" by (cases x) auto
  obtain w1 b1 es where w1: "sel_round tcp udp False r w b = Some (w1, b1, es)" "sel_ok w1" "buffers_ok b1"
    "sel_watched w1 = track (conns es) (sel_watched w)" "{tcp, udp} \<subseteq> sel_watched w1"
    using sel_round_ok [OF x(2) Cons.prems(2-4)] by blast
  from Cons.IH [OF _ w1(2,3,5)] Cons.prems(1) obtain w2 b2 ess where
    "sel_run tcp udp rs w1 b1 = Some (w2, b2, ess)" "length ess = length rs"
    "sel_watched w2 = track (conns (concat ess)) (sel_watched w1)" "{tcp, udp} \<subseteq> sel_watched w2" by auto
  then show ?case using x w1(1,4) by (simp add: conns_append track_append)
qed (auto)

section \<open>Properties\<close>


abbreviation example_round :: "int \<Rightarrow> round" where
  "example_round fd \<equiv> \<lparr>ready = \<lambda>i. i = fd, accepted = 7, udp_in = Some [104, 105],
     tcp_in = (\<lambda>fd. if fd = 7 then Some [] else None)\<rparr>"

lemma example_round_ok: "round_ok (example_round fd)"
  by (simp add: round_ok_def fd_in_range_def)


text \<open>
  No ready descriptor is missed: in one round of the select server there are exactly as many
  events as watched descriptors are ready, and each ready connection is read or closed in it.
\<close>

lemma select_serves_ready:
  assumes "round_ok r" "sel_ok w" "buffers_ok b" "{tcp, udp} \<subseteq> sel_watched w"
  shows "\<exists>w' b' es. sel_round tcp udp False r w b = Some (w', b', es)
    \<and> length es = card {fd \<in> sel_watched w. ready r fd}
    \<and> (\<forall>fd \<in> sel_watched w. ready r fd \<longrightarrow> fd \<notin> {tcp, udp} \<longrightarrow> served fd es)"
  using sel_round_ok [OF assms] by blast

lemma select_serves_ready_witness:
  "\<exists>w w' b' es. sel_start 4 3 = Some w \<and> sel_round 4 3 False (example_round 4) w start_buffers = Some (w', b', es)
     \<and> length es = 1"
proof -
  have "fd_in_range 4" "fd_in_range 3" by (simp_all add: fd_in_range_def)
  then obtain w where w: "sel_start 4 3 = Some w" "sel_ok w" "sel_watched w = {4, 3}"
    using sel_start_ok by blast
  have "buffers_ok start_buffers" by (simp add: buffers_ok_def start_buffers_def)
  moreover have "{fd \<in> sel_watched w. fd = 4} = {4}" using w(3) by auto
  ultimately show ?thesis
    using select_serves_ready [OF example_round_ok w(2), of start_buffers 4 3 4] w by auto
qed



end
