(* ===== verification/QueueServer.thy ===== *)
theory QueueServer
  imports Prelude "HOL-Library.Multiset"
begin

text \<open>
  The time server of udp\_client\_server/main.c: a main thread with three states, two worker threads
  and two System V message queues between them. The threads interleave, so the server is a
  step relation whose steps are the code between two blocking calls. The queues are the
  kernel's: sending and receiving are parameters, and the locale \<open>message_queue\<close> says that they
  form a first-in first-out queue which may be full. Signals are taken by the
  main thread, as Linux prefers it: a worker is not interrupted in its call. \<open>clock\<close> is the text that \<^verbatim>\<open>ctime\<close> returned.
\<close>

section \<open>Messages\<close>

record msgbuf =
  mtype :: int
  maddr :: nat
  mbuf :: "byte list"

abbreviation (input) MSG_SIZE :: nat where "MSG_SIZE \<equiv> 256"

definition time_prefix :: "byte list" where
  "time_prefix = [116, 105, 109, 101, 32, 45, 32]"

text \<open>\<^verbatim>\<open>snprintf\<close> into the message: at most 255 bytes and a zero; what follows stays.\<close>

definition stamp :: "byte list \<Rightarrow> byte list \<Rightarrow> byte list" where
  "stamp clock buf =
     (let text = take (MSG_SIZE - 1) (time_prefix @ clock) @ [0]
      in text @ drop (length text) buf)"

section \<open>The threads\<close>

text \<open>
  The main thread creates the workers, sets \<open>running\<close>, goes through its three states and at the
  end joins the workers. A worker is about to test \<open>running\<close>, blocked in \<^verbatim>\<open>msgrcv\<close>, busy with a
  message, or at its end.
\<close>

datatype main_state = Starting | STATE_RECV | STATE_SEND | STATE_RESPONSE_HANDLER | Joining

datatype worker_state = Testing | Receiving | Holding msgbuf | Exited

text \<open>\<open>received\<close>, \<open>dropped\<close> and \<open>sent\<close> log the datagrams; the code has no such variables.\<close>

record 'q server =
  running :: bool
  state :: main_state
  req :: msgbuf
  queue0 :: 'q
  queue1 :: 'q
  workers :: "worker_state list"
  received :: "nat list"
  dropped :: "nat list"
  sent :: "(nat \<times> byte list) list"

abbreviation (input) MAX_THREADS :: nat where "MAX_THREADS \<equiv> 2"

definition server_start :: "'q \<Rightarrow> 'q server" where
  "server_start q = \<lparr>running = False, state = Starting,
     req = \<lparr>mtype = 0, maddr = 0, mbuf = replicate MSG_SIZE 0\<rparr>, queue0 = q, queue1 = q,
     workers = [], received = [], dropped = [], sent = []\<rparr>"

inductive server_step :: "('q \<Rightarrow> msgbuf \<Rightarrow> 'q option) \<Rightarrow> ('q \<Rightarrow> (msgbuf \<times> 'q) option) \<Rightarrow> 'q server \<Rightarrow> 'q server \<Rightarrow> bool"
  for msgsnd :: "'q \<Rightarrow> msgbuf \<Rightarrow> 'q option" and msgrcv :: "'q \<Rightarrow> (msgbuf \<times> 'q) option" where
  Create: "state s = Starting \<Longrightarrow> length (workers s) < MAX_THREADS \<Longrightarrow>
     server_step msgsnd msgrcv s (s\<lparr>workers := workers s @ [Testing]\<rparr>)"
| Begin: "state s = Starting \<Longrightarrow> length (workers s) = MAX_THREADS \<Longrightarrow>
     server_step msgsnd msgrcv s (s\<lparr>running := True, state := STATE_RECV\<rparr>)"
| Recv: "running s \<Longrightarrow> state s = STATE_RECV \<Longrightarrow> length bs \<le> MSG_SIZE \<Longrightarrow>
     server_step msgsnd msgrcv s (s\<lparr>req := (req s)\<lparr>mbuf := bs @ drop (length bs) (mbuf (req s)), maddr := a\<rparr>,
        state := STATE_RESPONSE_HANDLER, received := received s @ [a]\<rparr>)"
| Recv_Timeout: "running s \<Longrightarrow> state s = STATE_RECV \<Longrightarrow>
     server_step msgsnd msgrcv s (s\<lparr>state := STATE_SEND\<rparr>)"
| Recv_Error: "running s \<Longrightarrow> state s = STATE_RECV \<Longrightarrow>
     server_step msgsnd msgrcv s (s\<lparr>running := False\<rparr>)"
| Send: "running s \<Longrightarrow> state s = STATE_SEND \<Longrightarrow> msgrcv (queue1 s) = Some (m, q) \<Longrightarrow>
     server_step msgsnd msgrcv s (s\<lparr>req := m, queue1 := q, sent := sent s @ [(maddr m, mbuf m)],
        state := STATE_RECV\<rparr>)"
| Send_Empty: "running s \<Longrightarrow> state s = STATE_SEND \<Longrightarrow> msgrcv (queue1 s) = None \<Longrightarrow>
     server_step msgsnd msgrcv s (s\<lparr>state := STATE_RECV\<rparr>)"
| Respond: "running s \<Longrightarrow> state s = STATE_RESPONSE_HANDLER \<Longrightarrow> msgsnd (queue0 s) ((req s)\<lparr>mtype := 1\<rparr>) = Some q \<Longrightarrow>
     server_step msgsnd msgrcv s (s\<lparr>req := (req s)\<lparr>mtype := 1\<rparr>, queue0 := q, state := STATE_RECV\<rparr>)"
| Respond_Full: "running s \<Longrightarrow> state s = STATE_RESPONSE_HANDLER \<Longrightarrow> msgsnd (queue0 s) ((req s)\<lparr>mtype := 1\<rparr>) = None \<Longrightarrow>
     server_step msgsnd msgrcv s (s\<lparr>req := (req s)\<lparr>mtype := 1\<rparr>, state := STATE_RECV,
        dropped := dropped s @ [maddr (req s)]\<rparr>)"
| Signal: "server_step msgsnd msgrcv s (s\<lparr>running := False\<rparr>)"
| Stop: "\<not> running s \<Longrightarrow> state s \<in> {STATE_RECV, STATE_SEND, STATE_RESPONSE_HANDLER} \<Longrightarrow>
     server_step msgsnd msgrcv s (s\<lparr>state := Joining,
        dropped := dropped s @ (if state s = STATE_RESPONSE_HANDLER then [maddr (req s)] else [])\<rparr>)"
| Worker_Test: "i < length (workers s) \<Longrightarrow> workers s ! i = Testing \<Longrightarrow>
     server_step msgsnd msgrcv s (s\<lparr>workers := (workers s)[i := if running s then Receiving else Exited]\<rparr>)"
| Worker_Receive: "i < length (workers s) \<Longrightarrow> workers s ! i = Receiving \<Longrightarrow> msgrcv (queue0 s) = Some (m, q) \<Longrightarrow>
     server_step msgsnd msgrcv s (s\<lparr>workers := (workers s)[i := Holding m], queue0 := q\<rparr>)"
| Worker_Send: "i < length (workers s) \<Longrightarrow> workers s ! i = Holding m \<Longrightarrow>
     msgsnd (queue1 s) (m\<lparr>mbuf := stamp clock (mbuf m)\<rparr>) = Some q \<Longrightarrow>
     server_step msgsnd msgrcv s (s\<lparr>workers := (workers s)[i := Testing], queue1 := q\<rparr>)"

inductive_cases server_stepE: "server_step msgsnd msgrcv s s'"

text \<open>
  \<open>main\<close>: the line that \<^verbatim>\<open>fgets\<close> read, with its line feed, is compared with "server"; the server
  is bound to port 8005, the client sends to port 8000.
\<close>

datatype role = Server nat | Client nat

definition qs_main :: "byte list \<Rightarrow> role option" where
  "qs_main command = do {
     r \<leftarrow> strcmp command [115, 101, 114, 118, 101, 114, 0];
     Some (if r > 0 then Server 8005 else Client 8000) }"

section \<open>What the server relies on\<close>

text \<open>The addresses that a worker has in hand, and those in a queue.\<close>

fun held :: "worker_state \<Rightarrow> nat multiset" where
  "held (Holding m) = {#maddr m#}"
| "held _ = {#}"

text \<open>Where the requests are: on the way to the first queue, in a queue, in hand, answered or lost.\<close>

definition requests :: "('q \<Rightarrow> msgbuf list) \<Rightarrow> 'q server \<Rightarrow> nat multiset" where
  "requests contents s =
     (if state s = STATE_RESPONSE_HANDLER then {#maddr (req s)#} else {#})
     + mset (map maddr (contents (queue0 s))) + (\<Sum>w\<in>#mset (workers s). held w)
     + mset (map maddr (contents (queue1 s))) + mset (map fst (sent s)) + mset (dropped s)"

text \<open>An answer: the text of the time, terminated inside the 256 bytes.\<close>

definition answer :: "byte list \<Rightarrow> bool" where
  "answer buf \<longleftrightarrow> take (length time_prefix) buf = time_prefix \<and> length buf = MSG_SIZE \<and> terminated buf"

definition msg_ok :: "msgbuf \<Rightarrow> bool" where
  "msg_ok m \<longleftrightarrow> length (mbuf m) = MSG_SIZE"

definition server_ok :: "('q \<Rightarrow> msgbuf list) \<Rightarrow> 'q server \<Rightarrow> bool" where
  "server_ok contents s \<longleftrightarrow> requests contents s = mset (received s)
     \<and> msg_ok (req s) \<and> (\<forall>m \<in> set (contents (queue0 s)). msg_ok m)
     \<and> (\<forall>m. Holding m \<in> set (workers s) \<longrightarrow> msg_ok m)
     \<and> (\<forall>m \<in> set (contents (queue1 s)). answer (mbuf m)) \<and> (\<forall>x \<in> set (sent s). answer (snd x))"

lemma stamp_answer:
  assumes "length buf = MSG_SIZE"
  shows "answer (stamp clock buf)"
proof -
  have "length (take 255 (time_prefix @ clock) @ [0]) \<le> 256" by simp
  then show ?thesis using assms by (auto simp: answer_def stamp_def Let_def time_prefix_def)
qed

lemma held_update:
  assumes "i < length ws"
  shows "(\<Sum>w\<in>#mset (ws[i := w']). held w) + held (ws ! i) = (\<Sum>w\<in>#mset ws. held w) + held w'"
proof -
  define M where "M = mset ws - {#ws ! i#}"
  have "mset ws = add_mset (ws ! i) M" using assms by (simp add: M_def)
  moreover have "mset (ws[i := w']) = add_mset w' M" using assms by (simp add: M_def mset_update)
  ultimately show ?thesis by (simp add: ac_simps)
qed

locale message_queue =
  fixes empty :: 'q
    and msgsnd :: "'q \<Rightarrow> msgbuf \<Rightarrow> 'q option"
    and msgrcv :: "'q \<Rightarrow> (msgbuf \<times> 'q) option"
    and contents :: "'q \<Rightarrow> msgbuf list"
  assumes empty_contents: "contents empty = []"
    and snd_contents: "msgsnd q m = Some q' \<Longrightarrow> contents q' = contents q @ [m]"
    and rcv_contents: "msgrcv q = Some (m, q') \<Longrightarrow> contents q = m # contents q'"
    and rcv_empty: "msgrcv q = None \<Longrightarrow> contents q = []"
begin

lemma start_ok: "server_ok contents (server_start empty)"
  by (simp add: server_ok_def server_start_def requests_def empty_contents msg_ok_def)

lemma step_ok: "server_step msgsnd msgrcv s s' \<Longrightarrow> server_ok contents s \<Longrightarrow> server_ok contents s'"
proof (induction rule: server_step.induct)
  case (Recv s bs a)
  then show ?case by (auto simp: server_ok_def requests_def msg_ok_def)
next
  case (Send s m q)
  then show ?case using rcv_contents [OF Send.hyps(3)] 
    by (auto simp: server_ok_def requests_def msg_ok_def answer_def)
next
  case (Respond s q)
  then show ?case using snd_contents [OF Respond.hyps(3)]
    by (auto simp: server_ok_def requests_def msg_ok_def)
next
  case (Worker_Test i s)
  then show ?case
    using held_update [of i "workers s" "if running s then Receiving else Exited"]
    by (auto simp: server_ok_def requests_def dest!: set_update_subset_insert [THEN subsetD])
next
  case (Worker_Receive i s m q)
  then show ?case
    using held_update [of i "workers s" "Holding m"] rcv_contents [OF Worker_Receive.hyps(3)]
    by (auto simp: server_ok_def requests_def dest!: set_update_subset_insert [THEN subsetD])
next
  case (Worker_Send i s m clock q)
  have "Holding m \<in> set (workers s)" using Worker_Send.hyps(1,2) by (metis nth_mem)
  then have "msg_ok m" using Worker_Send.prems by (auto simp: server_ok_def)
  then have "answer (stamp clock (mbuf m))" by (intro stamp_answer) (simp add: msg_ok_def)
  moreover have "(\<Sum>w\<in>#mset (workers s). held w) =
      add_mset (maddr m) (\<Sum>w\<in>#mset ((workers s)[i := Testing]). held w)"
    using held_update [of i "workers s" Testing] Worker_Send.hyps(1,2) by simp
  ultimately show ?case
    using Worker_Send snd_contents [OF Worker_Send.hyps(3)]
    by (auto simp: server_ok_def requests_def dest!: set_update_subset_insert [THEN subsetD])
qed (auto simp: server_ok_def requests_def msg_ok_def)

lemma reachable_ok:
  "(server_step msgsnd msgrcv)\<^sup>*\<^sup>* (server_start empty) s \<Longrightarrow> server_ok contents s"
  by (induction rule: rtranclp_induct) (auto intro: start_ok step_ok)

end

context message_queue
begin

text \<open>Nothing is answered any more once all workers have left and the second queue is empty.\<close>

lemma dead_workers:
  assumes "(server_step msgsnd msgrcv)\<^sup>*\<^sup>* s s'" "state s \<noteq> Starting"
    and "\<forall>w \<in> set (workers s). w = Exited" "contents (queue1 s) = []"
  shows "state s' \<noteq> Starting \<and> workers s' = workers s \<and> contents (queue1 s') = [] \<and> sent s' = sent s"
  using assms(1)
proof (induction rule: rtranclp_induct)
  case (step t u)
  have w: "workers t ! i = Exited" if "i < length (workers t)" for i
    using step.IH assms(3) that by (metis nth_mem)
  from step.hyps(2) show ?case
    by (cases rule: server_stepE) (use step.IH w rcv_contents in \<open>auto split: if_splits\<close>)
qed (use assms in auto)

text \<open>A worker that waits while nothing can be sent to the first queue waits for ever.\<close>

lemma stuck_worker:
  assumes "(server_step msgsnd msgrcv)\<^sup>*\<^sup>* s s'" "state s = Joining"
    and "i < length (workers s)" "workers s ! i = Receiving" "contents (queue0 s) = []"
  shows "state s' = Joining \<and> length (workers s') = length (workers s) \<and> workers s' ! i = Receiving
    \<and> contents (queue0 s') = []"
  using assms(1)
proof (induction rule: rtranclp_induct)
  case (step t u)
  from step.hyps(2) show ?case
    by (cases rule: server_stepE) (use step.IH rcv_contents assms(3) in \<open>auto simp: nth_list_update\<close>)
qed (use assms in auto)

end

text \<open>A queue with room for a fixed number of messages.\<close>

definition list_snd :: "nat \<Rightarrow> msgbuf list \<Rightarrow> msgbuf \<Rightarrow> msgbuf list option" where
  "list_snd room q m = (if length q < room then Some (q @ [m]) else None)"

fun list_rcv :: "msgbuf list \<Rightarrow> (msgbuf \<times> msgbuf list) option" where
  "list_rcv [] = None"
| "list_rcv (m # q) = Some (m, q)"

interpretation bounded: message_queue "[]" "list_snd room" list_rcv id
  by unfold_locales (auto simp: list_snd_def split: if_splits elim: list_rcv.elims)

section \<open>Properties\<close>


text \<open>A run in which one request is received, worked on and answered.\<close>

definition answered_run :: "msgbuf list server list" where
  "answered_run =
    (let s0 = server_start []; s1 = s0\<lparr>workers := [Testing]\<rparr>; s2 = s1\<lparr>workers := [Testing, Testing]\<rparr>;
         s3 = s2\<lparr>running := True, state := STATE_RECV\<rparr>; s4 = s3\<lparr>workers := [Receiving, Testing]\<rparr>;
         m = (req s4)\<lparr>maddr := 9\<rparr>; m' = m\<lparr>mtype := 1\<rparr>;
         s5 = s4\<lparr>req := m, state := STATE_RESPONSE_HANDLER, received := [9]\<rparr>;
         s6 = s5\<lparr>req := m', queue0 := [m'], state := STATE_RECV\<rparr>;
         s7 = s6\<lparr>workers := [Holding m', Testing], queue0 := []\<rparr>;
         a = m'\<lparr>mbuf := stamp [77] (mbuf m')\<rparr>;
         s8 = s7\<lparr>workers := [Testing, Testing], queue1 := [a]\<rparr>; s9 = s8\<lparr>state := STATE_SEND\<rparr>;
         s10 = s9\<lparr>req := a, queue1 := [], sent := [(9, mbuf a)], state := STATE_RECV\<rparr>
     in [s0, s1, s2, s3, s4, s5, s6, s7, s8, s9, s10])"

lemmas run_simps = answered_run_def Let_def server_start_def list_snd_def

lemma answered_run_reach:
  "(server_step (list_snd 4) list_rcv)\<^sup>*\<^sup>* (server_start []) (answered_run ! 10)"
proof -
  let ?step = "server_step (list_snd 4) list_rcv" and ?r = answered_run
  have "?step (?r ! 0) (?r ! 1)"
    using server_step.Create [of "?r ! 0" "list_snd 4" list_rcv] by (simp add: run_simps)
  moreover have "?step (?r ! 1) (?r ! 2)"
    using server_step.Create [of "?r ! 1" "list_snd 4" list_rcv] by (simp add: run_simps)
  moreover have "?step (?r ! 2) (?r ! 3)"
    using server_step.Begin [of "?r ! 2" "list_snd 4" list_rcv] by (simp add: run_simps)
  moreover have "?step (?r ! 3) (?r ! 4)"
    using server_step.Worker_Test [of 0 "?r ! 3" "list_snd 4" list_rcv] by (simp add: run_simps)
  moreover have "?step (?r ! 4) (?r ! 5)"
    using server_step.Recv [of "?r ! 4" "[]" "list_snd 4" list_rcv 9] by (simp add: run_simps)
  moreover have "?step (?r ! 5) (?r ! 6)"
    using server_step.Respond [of "?r ! 5" "list_snd 4" _ list_rcv] by (simp add: run_simps)
  moreover have "?step (?r ! 6) (?r ! 7)"
    using server_step.Worker_Receive [of 0 "?r ! 6" list_rcv _ _ "list_snd 4"] by (simp add: run_simps)
  moreover have "?step (?r ! 7) (?r ! 8)"
    using server_step.Worker_Send [of 0 "?r ! 7" _ "list_snd 4" "[77]" _ list_rcv] by (simp add: run_simps)
  moreover have "?step (?r ! 8) (?r ! 9)"
    using server_step.Recv_Timeout [of "?r ! 8" "list_snd 4" list_rcv] by (simp add: run_simps)
  moreover have "?step (?r ! 9) (?r ! 10)"
    using server_step.Send [of "?r ! 9" list_rcv _ _ "list_snd 4"] by (simp add: run_simps)
  ultimately have "?step\<^sup>*\<^sup>* (?r ! 0) (?r ! 10)"
    by (meson rtranclp.rtrancl_refl rtranclp.rtrancl_into_rtrancl)
  then show ?thesis by (simp add: run_simps)
qed


text \<open>
  The workers are created before \<open>running\<close> is set. If they test it first they all leave at
  once, and the server then runs, receives and queues requests, but never answers one.
\<close>

lemma workers_leave_before_start:
  "\<exists>s. (server_step (list_snd room) list_rcv)\<^sup>*\<^sup>* (server_start []) s \<and> running s \<and> state s = STATE_RECV
    \<and> sent ` {s'. (server_step (list_snd room) list_rcv)\<^sup>*\<^sup>* s s'} = {[]}"
proof -
  let ?step = "server_step (list_snd room) list_rcv"
  define s0 :: "msgbuf list server" where "s0 = server_start []"
  define s1 where "s1 = s0\<lparr>workers := [Testing]\<rparr>"
  define s2 where "s2 = s0\<lparr>workers := [Testing, Testing]\<rparr>"
  define s3 where "s3 = s0\<lparr>workers := [Exited, Testing]\<rparr>"
  define s4 where "s4 = s0\<lparr>workers := [Exited, Exited]\<rparr>"
  define s5 where "s5 = s4\<lparr>running := True, state := STATE_RECV\<rparr>"
  note defs = s0_def s1_def s2_def s3_def s4_def s5_def server_start_def
  have "?step s0 s1" using server_step.Create [of s0] by (simp add: defs)
  moreover have "?step s1 s2" using server_step.Create [of s1] by (simp add: defs)
  moreover have "?step s2 s3" using server_step.Worker_Test [of 0 s2] by (simp add: defs)
  moreover have "?step s3 s4" using server_step.Worker_Test [of 1 s3] by (simp add: defs)
  moreover have "?step s4 s5" using server_step.Begin [of s4] by (simp add: defs)
  ultimately have reach: "?step\<^sup>*\<^sup>* s0 s5" by (meson rtranclp.rtrancl_refl rtranclp.rtrancl_into_rtrancl)
  have "sent s' = []" if "?step\<^sup>*\<^sup>* s5 s'" for s'
    using bounded.dead_workers [OF that] by (simp add: defs)
  then have "sent ` {s'. ?step\<^sup>*\<^sup>* s5 s'} = {[]}" by auto
  with reach show ?thesis by (auto simp: defs intro!: exI [of _ s5])
qed


text \<open>
  The line that was read ends with its line feed, so "server" selects the server; so does every
  line above it, and without a line feed (at the end of the input) it does not. A client sends
  to another port than the one the server is bound to.
\<close>

lemma qs_main_roles:
  "qs_main [115, 101, 114, 118, 101, 114, 10, 0] = Some (Server 8005)
    \<and> qs_main [122, 10, 0] = Some (Server 8005)
    \<and> qs_main [115, 101, 114, 118, 101, 114, 0] = Some (Client 8000)
    \<and> qs_main [99, 108, 105, 101, 110, 116, 10, 0] = Some (Client 8000)"
  by code_simp

end
