(* ===== verification/Icmp.thy ===== *)
theory Icmp
  imports Checksum
begin

text \<open>
  ping/main.c and traceroute/main.c: the echo request, the wait for an answer and the loops of
  both \<open>main\<close> functions. What the kernel answers is an argument: one list of events for each
  wait, each the return of \<^verbatim>\<open>select\<close> with, when a datagram is there, its bytes and the time that
  \<^verbatim>\<open>select\<close> left in its argument. The socket is the only descriptor in the set. A list that ends
  before the wait does means that the program still waits.
\<close>

section \<open>The echo request\<close>

abbreviation (input) PACKET_SEND :: nat where "PACKET_SEND \<equiv> 8 + 48"
abbreviation (input) PACKET_RECV :: nat where "PACKET_RECV \<equiv> 20 + 8 + 48"

text \<open>
  Both programs fill the same fields, each with its own checksum routine. The payload is what
  the stack held.
\<close>

definition echo_request :: "(byte list \<Rightarrow> int \<Rightarrow> u16 option) \<Rightarrow> int \<Rightarrow> int \<Rightarrow> byte list \<Rightarrow> byte list option" where
  "echo_request csum pid seq m = do {
     m \<leftarrow> st8 m 0 8;
     m \<leftarrow> st16 m 2 0;
     m \<leftarrow> st8 m 1 0;
     m \<leftarrow> st16 m 4 (htons (word_of_int pid));
     m \<leftarrow> st16 m 6 (htons (word_of_int seq));
     c \<leftarrow> csum m (int PACKET_SEND);
     st16 m 2 c }"

section \<open>Waiting for the answer\<close>

record timeval =
  tv_sec :: int
  tv_usec :: int

text \<open>A \<^verbatim>\<open>recvfrom\<close> that fails leaves the buffer as an empty datagram does.\<close>

datatype event = Select_Error | Select_Timeout | Datagram "byte list" timeval

definition recvfrom :: "byte list \<Rightarrow> byte list \<Rightarrow> byte list" where
  "recvfrom buf bs = take PACKET_RECV bs @ drop (length (take PACKET_RECV bs)) buf"

definition elapsed :: "timeval \<Rightarrow> timeval \<Rightarrow> int" where
  "elapsed timeout left = ((tv_sec timeout - tv_sec left) * 1000000 + tv_usec timeout) - tv_usec left"

text \<open>What a wait ends with: the buffer is kept, since it is read again in the next one.\<close>

datatype 'a waited = Died | Timed_Out "byte list" | Answered 'a "byte list" timeval | Waiting

text \<open>The fields that \<open>print_icmp\<close> prints.\<close>

record icmp_line =
  il_type :: nat
  il_code :: nat
  il_id :: nat
  il_seq :: nat

definition print_icmp :: "byte list \<Rightarrow> nat \<Rightarrow> icmp_line option" where
  "print_icmp m icmp = do {
     t \<leftarrow> ld8 m icmp;
     c \<leftarrow> ld8 m (icmp + 1);
     i \<leftarrow> ld16 m (icmp + 4);
     s \<leftarrow> ld16 m (icmp + 6);
     Some \<lparr>il_type = unat t, il_code = unat c, il_id = unat (ntohs i), il_seq = unat (ntohs s)\<rparr> }"

fun ping_wait :: "int \<Rightarrow> byte list \<Rightarrow> event list \<Rightarrow> icmp_line waited option" where
  "ping_wait pid buf [] = Some Waiting"
| "ping_wait pid buf (Select_Error # es) = Some Died"
| "ping_wait pid buf (Select_Timeout # es) = Some (Timed_Out buf)"
| "ping_wait pid buf (Datagram bs left # es) = (let buf = recvfrom buf bs in do {
     t \<leftarrow> ld8 buf 20;
     if t \<noteq> 0 then ping_wait pid buf es
     else do {
       i \<leftarrow> ld16 buf 24;
       if int (unat (ntohs i)) \<noteq> pid then ping_wait pid buf es
       else do { l \<leftarrow> print_icmp buf 20; Some (Answered l buf left) } } })"

fun tr_wait :: "int \<Rightarrow> byte list \<Rightarrow> event list \<Rightarrow> (u32 \<times> bool) waited option" where
  "tr_wait pid buf [] = Some Waiting"
| "tr_wait pid buf (Select_Error # es) = Some Died"
| "tr_wait pid buf (Select_Timeout # es) = Some (Timed_Out buf)"
| "tr_wait pid buf (Datagram bs left # es) = (let buf = recvfrom buf bs in do {
     t \<leftarrow> ld8 buf 20;
     if t = 11 then do { a \<leftarrow> ld32 buf 12; Some (Answered (a, False) buf left) }
     else if t = 0 then do {
       i \<leftarrow> ld16 buf 24;
       if int (unat (ntohs i)) \<noteq> pid then tr_wait pid buf es
       else do { a \<leftarrow> ld32 buf 12; Some (Answered (a, True) buf left) } }
     else tr_wait pid buf es })"

section \<open>ping\<close>

text \<open>
  The globals \<open>seq\<close> and \<open>total\<close>, both buffers, the requests that were sent and the lines that were
  printed. \<open>seq\<close> is an \<^verbatim>\<open>int\<close> that is counted up once a second.
\<close>

datatype ping_out = Ping_Timeout | Ping_Reply icmp_line int

record ping =
  seq :: int
  total :: int
  packet_send :: "byte list"
  packet_recv :: "byte list"
  requests :: "byte list list"
  lines :: "ping_out list"

definition ping_start :: "byte list \<Rightarrow> byte list \<Rightarrow> ping" where
  "ping_start sbuf rbuf = \<lparr>seq = 0, total = 0, packet_send = sbuf, packet_recv = rbuf, requests = [], lines = []\<rparr>"

datatype status = Going | Stuck | Exit

definition ping_round :: "int \<Rightarrow> timeval \<Rightarrow> event list \<Rightarrow> ping \<Rightarrow> (ping \<times> status) option" where
  "ping_round pid timeout es p = do {
     p \<leftarrow> (if seq p + 1 < 2 ^ 31 then Some (p\<lparr>seq := seq p + 1\<rparr>) else None);
     m \<leftarrow> echo_request ping_checksum pid (seq p) (packet_send p);
     let p = p\<lparr>packet_send := m, requests := requests p @ [m]\<rparr>;
     r \<leftarrow> ping_wait pid (packet_recv p) es;
     case r of
       Died \<Rightarrow> Some (p, Exit)
     | Timed_Out buf \<Rightarrow> Some (p\<lparr>packet_recv := buf, lines := lines p @ [Ping_Timeout]\<rparr>, Going)
     | Answered l buf left \<Rightarrow>
         Some (p\<lparr>total := total p + 1, packet_recv := buf,
                 lines := lines p @ [Ping_Reply l (elapsed timeout left)]\<rparr>, Going)
     | Waiting \<Rightarrow> Some (p, Stuck) }"

fun ping_run :: "int \<Rightarrow> timeval \<Rightarrow> event list list \<Rightarrow> ping \<Rightarrow> (ping \<times> status) option" where
  "ping_run pid timeout [] p = Some (p, Going)"
| "ping_run pid timeout (es # ess) p = do {
     (p, st) \<leftarrow> ping_round pid timeout es p;
     if st = Going then ping_run pid timeout ess p else Some (p, st) }"

text \<open>What an interrupt prints: packets transmitted and received. Other signals end in failure.\<close>

definition signal_handler :: "int \<Rightarrow> ping \<Rightarrow> (int \<times> int) option" where
  "signal_handler signo p = (if signo = 2 \<or> signo = 15 then Some (seq p, total p) else None)"

section \<open>traceroute\<close>

text \<open>\<open>set_ttl\<close> says whether the kernel accepts a time to live.\<close>

datatype tr_out = Tr_Timeout | Hop int u32 int

record trace =
  tr_send :: "byte list"
  tr_recv :: "byte list"
  probes :: "(int \<times> byte list) list"
  tr_lines :: "tr_out list"

definition tr_start :: "byte list \<Rightarrow> byte list \<Rightarrow> trace" where
  "tr_start sbuf rbuf = \<lparr>tr_send = sbuf, tr_recv = rbuf, probes = [], tr_lines = []\<rparr>"

definition tr_round :: "int \<Rightarrow> timeval \<Rightarrow> (int \<Rightarrow> bool) \<Rightarrow> int \<Rightarrow> event list \<Rightarrow> trace \<Rightarrow> (trace \<times> status) option" where
  "tr_round pid timeout set_ttl i es t = do {
     m \<leftarrow> echo_request tr_checksum pid i (tr_send t);
     let t = t\<lparr>tr_send := m\<rparr>;
     if \<not> set_ttl i then Some (t, Exit)
     else do {
       let t = t\<lparr>probes := probes t @ [(i, m)]\<rparr>;
       r \<leftarrow> tr_wait pid (tr_recv t) es;
       case r of
         Died \<Rightarrow> Some (t, Exit)
       | Timed_Out buf \<Rightarrow> Some (t\<lparr>tr_recv := buf, tr_lines := tr_lines t @ [Tr_Timeout]\<rparr>, Going)
       | Answered (a, reached) buf left \<Rightarrow>
           Some (t\<lparr>tr_recv := buf, tr_lines := tr_lines t @ [Hop i a (elapsed timeout left)]\<rparr>,
                 if reached then Exit else Going)
       | Waiting \<Rightarrow> Some (t, Stuck) } }"

function tr_run :: "int \<Rightarrow> timeval \<Rightarrow> (int \<Rightarrow> bool) \<Rightarrow> int \<Rightarrow> (int \<Rightarrow> event list) \<Rightarrow> int \<Rightarrow> trace \<Rightarrow> (trace \<times> status) option" where
  "tr_run pid timeout set_ttl ttl net i t =
     (if i < ttl then do {
        (t, st) \<leftarrow> tr_round pid timeout set_ttl i (net i) t;
        if st = Going then tr_run pid timeout set_ttl ttl net (i + 1) t else Some (t, st) }
      else Some (t, Exit))"
  by pat_completeness auto
termination
  by (relation "measure (\<lambda>(_, _, _, ttl, _, i, _). nat (ttl - i))") auto

declare tr_run.simps [simp del]

definition tr_main :: "int \<Rightarrow> timeval \<Rightarrow> (int \<Rightarrow> bool) \<Rightarrow> int \<Rightarrow> (int \<Rightarrow> event list) \<Rightarrow> byte list \<Rightarrow> byte list \<Rightarrow> (trace \<times> status) option" where
  "tr_main ppid timeout set_ttl ttl net sbuf rbuf = tr_run ppid timeout set_ttl ttl net 1 (tr_start sbuf rbuf)"

section \<open>Lemmas\<close>

lemma recvfrom_length [simp]: "length buf = PACKET_RECV \<Longrightarrow> length (recvfrom buf bs) = PACKET_RECV"
  by (simp add: recvfrom_def min_def)

lemma recvfrom_nth: "i < length bs \<Longrightarrow> i < PACKET_RECV \<Longrightarrow> recvfrom buf bs ! i = bs ! i"
  by (simp add: recvfrom_def nth_append)

text \<open>A well-formed request: its fields, its checksum.\<close>

definition request_ok :: "int \<Rightarrow> int \<Rightarrow> byte list \<Rightarrow> bool" where
  "request_ok pid n r \<longleftrightarrow> length r = PACKET_SEND \<and> ld8 r 0 = Some 8 \<and> ld8 r 1 = Some 0
     \<and> ld16 r 4 = Some (htons (word_of_int pid)) \<and> ld16 r 6 = Some (htons (word_of_int n))
     \<and> rfc1071 r = 0"

lemma echo_request_ok:
  assumes "length m = PACKET_SEND" "\<And>x. length x = PACKET_SEND \<Longrightarrow> csum x (int PACKET_SEND) = Some (rfc1071 x)"
  shows "\<exists>r. echo_request csum pid n m = Some r \<and> request_ok pid n r \<and> drop 8 r = drop 8 m"
proof -
  define x where "x = put16 (put16 ((put16 (m[0 := 8]) 2 0)[1 := 0]) 4 (htons (word_of_int pid))) 6
    (htons (word_of_int n))"
  have x: "length x = PACKET_SEND" using assms(1) by (simp add: x_def)
  have "echo_request csum pid n m = csum x (int PACKET_SEND) \<bind> st16 x 2"
    using assms(1) by (simp add: echo_request_def put_simps x_def)
  then have r: "echo_request csum pid n m = Some (put16 x 2 (rfc1071 x))"
    using assms(2) [OF x] x by (simp add: put_simps)
  have "x ! 2 = 0" "x ! (2 + 1) = 0" using assms(1) by (simp_all add: x_def put16_def byte0_def byte1_def)
  then have "rfc1071 (insert_csum x 2 (rfc1071 x)) = 0"
    using rfc1071_insert_own [of 2 x] x by simp
  then have "rfc1071 (put16 x 2 (rfc1071 x)) = 0" by (simp only: insert_csum_def put16_def)
  moreover have "drop 8 (put16 x 2 (rfc1071 x)) = drop 8 m"
    by (simp add: x_def put16_def drop_update_cancel)
  ultimately show ?thesis
    using assms(1) by (simp add: r request_ok_def x put_simps) (simp add: x_def put_simps)
qed

lemma csum_packet:
  assumes "length m = PACKET_SEND"
  shows "ping_checksum m (int PACKET_SEND) = Some (rfc1071 m)" "tr_checksum m (int PACKET_SEND) = Some (rfc1071 m)"
  using ping_csum.csum_rfc [of m] tr_csum.csum_rfc [of m] assms by simp_all

lemmas ping_request_ok = echo_request_ok [where csum = ping_checksum, OF _ csum_packet(1)]
lemmas tr_request_ok = echo_request_ok [where csum = tr_checksum, OF _ csum_packet(2)]

text \<open>A datagram that the wait of ping passes over, and the one it accepts.\<close>

definition ping_foreign :: "int \<Rightarrow> event \<Rightarrow> bool" where
  "ping_foreign pid e = (case e of Datagram bs _ \<Rightarrow> 28 \<le> length bs
     \<and> (bs ! 20 \<noteq> 0 \<or> int (unat (ntohs (word16_of (bs ! 24) (bs ! 25)))) \<noteq> pid) | _ \<Rightarrow> False)"

lemma ping_wait_foreign:
  assumes "list_all (ping_foreign pid) noise" "length buf = PACKET_RECV"
  shows "\<exists>buf'. length buf' = PACKET_RECV \<and> ping_wait pid buf (noise @ es) = ping_wait pid buf' es"
  using assms
proof (induction noise arbitrary: buf)
  case (Cons e noise)
  then obtain bs left where e: "e = Datagram bs left" "28 \<le> length bs"
    "bs ! 20 \<noteq> 0 \<or> int (unat (ntohs (word16_of (bs ! 24) (bs ! 25)))) \<noteq> pid"
    by (auto simp: ping_foreign_def split: event.splits)
  let ?buf = "recvfrom buf bs"
  have len: "length ?buf = PACKET_RECV" using Cons.prems by simp
  have "ping_wait pid buf ((e # noise) @ es) = ping_wait pid ?buf (noise @ es)"
    using e len by (auto simp: Let_def ld8_eq ld16_eq recvfrom_nth)
  then show ?case using Cons.IH [OF _ len] Cons.prems by simp
qed auto

lemma ping_wait_cases:
  assumes "length buf = PACKET_RECV"
  shows "\<exists>r. ping_wait pid buf es = Some r
    \<and> (\<forall>buf'. r = Timed_Out buf' \<longrightarrow> length buf' = PACKET_RECV)
    \<and> (\<forall>l buf' left. r = Answered l buf' left \<longrightarrow> length buf' = PACKET_RECV \<and> 0 \<le> pid \<and> pid < 65536)"
  using assms
proof (induction pid buf es rule: ping_wait.induct)
  case (4 pid buf bs left es)
  let ?buf = "recvfrom buf bs"
  have len: "length ?buf = PACKET_RECV" using 4 by simp
  show ?case
  proof (cases "?buf ! 20 \<noteq> 0 \<or> int (unat (ntohs (word16_of (?buf ! 24) (?buf ! 25)))) \<noteq> pid")
    case True
    then show ?thesis using 4 len by (auto simp: Let_def ld8_eq ld16_eq)
  next
    case False
    then show ?thesis
      using len unsigned_less [of "ntohs (word16_of (?buf ! 24) (?buf ! 25))", where 'a = int]
      by (auto simp: Let_def ld8_eq ld16_eq print_icmp_def)
  qed
qed auto

text \<open>The counters of ping against the requests that were sent and the lines that were printed.\<close>

fun is_reply :: "ping_out \<Rightarrow> bool" where
  "is_reply (Ping_Reply _ _) = True"
| "is_reply Ping_Timeout = False"

definition ping_ok :: "int \<Rightarrow> ping \<Rightarrow> bool" where
  "ping_ok pid p \<longleftrightarrow> length (packet_send p) = PACKET_SEND \<and> length (packet_recv p) = PACKET_RECV
     \<and> seq p = int (length (requests p)) \<and> total p = int (length (filter is_reply (lines p)))
     \<and> length (lines p) \<le> length (requests p)
     \<and> list_all (\<lambda>(i, r). request_ok pid (int i + 1) r) (enumerate 0 (requests p))
     \<and> (65536 \<le> pid \<longrightarrow> total p = 0)"

lemma ping_round_ok:
  assumes "ping_ok pid p" "seq p + 1 < 2 ^ 31"
  shows "\<exists>p' st. ping_round pid timeout es p = Some (p', st) \<and> ping_ok pid p' \<and> seq p' = seq p + 1
    \<and> length (lines p') - length (lines p) = (if st = Going then 1 else 0)"
proof -
  obtain m where m: "echo_request ping_checksum pid (seq p + 1) (packet_send p) = Some m"
    "request_ok pid (seq p + 1) m"
    using ping_request_ok [of "packet_send p" pid "seq p + 1"] assms(1) by (auto simp: ping_ok_def)
  define p1 where "p1 = p\<lparr>seq := seq p + 1, packet_send := m, requests := requests p @ [m]\<rparr>"
  have p1: "ping_ok pid p1" "length (lines p1) < length (requests p1)"
    using assms(1) m(2) by (auto simp: ping_ok_def p1_def request_ok_def enumerate_append_eq)
  obtain r where r: "ping_wait pid (packet_recv p) es = Some r"
    "\<And>buf'. r = Timed_Out buf' \<Longrightarrow> length buf' = PACKET_RECV"
    "\<And>l buf' left. r = Answered l buf' left \<Longrightarrow> length buf' = PACKET_RECV \<and> 0 \<le> pid \<and> pid < 65536"
    using ping_wait_cases [of "packet_recv p" pid es] assms(1) by (auto simp: ping_ok_def)
  have "ping_round pid timeout es p = (case r of
       Died \<Rightarrow> Some (p1, Exit)
     | Timed_Out buf \<Rightarrow> Some (p1\<lparr>packet_recv := buf, lines := lines p1 @ [Ping_Timeout]\<rparr>, Going)
     | Answered l buf left \<Rightarrow>
         Some (p1\<lparr>total := total p1 + 1, packet_recv := buf,
                 lines := lines p1 @ [Ping_Reply l (elapsed timeout left)]\<rparr>, Going)
     | Waiting \<Rightarrow> Some (p1, Stuck))"
    using assms(2) by (cases r) (simp_all add: ping_round_def m(1) r(1) p1_def Let_def)
  with p1 r(2,3) show ?thesis
    by (cases r) (auto simp: ping_ok_def, auto simp: p1_def)
qed

lemma ping_run_ok:
  assumes "ping_ok pid p" "seq p + int (length ess) < 2 ^ 31"
  shows "\<exists>p' st. ping_run pid timeout ess p = Some (p', st) \<and> ping_ok pid p'
    \<and> (st = Going \<longrightarrow> seq p' = seq p + int (length ess)
         \<and> length (lines p') = length (lines p) + length ess)"
  using assms
proof (induction ess arbitrary: p)
  case (Cons es ess)
  obtain p1 st1 where p1: "ping_round pid timeout es p = Some (p1, st1)" "ping_ok pid p1"
    "seq p1 = seq p + 1" "length (lines p1) - length (lines p) = (if st1 = Going then 1 else 0)"
    using ping_round_ok [of pid p timeout es] Cons.prems by auto
  show ?case
  proof (cases "st1 = Going")
    case True
    then show ?thesis using Cons.IH [OF p1(2)] Cons.prems p1 by (fastforce split: if_splits)
  qed (use p1 in auto)
qed auto

text \<open>The same for traceroute, which also takes every "time exceeded" for its own.\<close>

definition tr_foreign :: "int \<Rightarrow> event \<Rightarrow> bool" where
  "tr_foreign pid e = (case e of Datagram bs _ \<Rightarrow> 28 \<le> length bs \<and> bs ! 20 \<noteq> 11
     \<and> (bs ! 20 \<noteq> 0 \<or> int (unat (ntohs (word16_of (bs ! 24) (bs ! 25)))) \<noteq> pid) | _ \<Rightarrow> False)"

definition source :: "byte list \<Rightarrow> u32" where
  "source bs = word32_of (bs ! 12) (bs ! 13) (bs ! 14) (bs ! 15)"

text \<open>The events of a wait in which a router, or the destination, answers after other datagrams.\<close>

definition answers :: "int \<Rightarrow> u32 \<times> bool \<Rightarrow> event list \<Rightarrow> bool" where
  "answers pid h es \<longleftrightarrow> (\<exists>noise bs left rest. es = noise @ Datagram bs left # rest
     \<and> list_all (tr_foreign pid) noise \<and> 28 \<le> length bs \<and> source bs = fst h
     \<and> (if snd h then bs ! 20 = 0 \<and> int (unat (ntohs (word16_of (bs ! 24) (bs ! 25)))) = pid
        else bs ! 20 = 11))"

lemma tr_wait_foreign:
  assumes "list_all (tr_foreign pid) noise" "length buf = PACKET_RECV"
  shows "\<exists>buf'. length buf' = PACKET_RECV \<and> tr_wait pid buf (noise @ es) = tr_wait pid buf' es"
  using assms
proof (induction noise arbitrary: buf)
  case (Cons e noise)
  then obtain bs left where e: "e = Datagram bs left" "28 \<le> length bs" "bs ! 20 \<noteq> 11"
    "bs ! 20 \<noteq> 0 \<or> int (unat (ntohs (word16_of (bs ! 24) (bs ! 25)))) \<noteq> pid"
    by (auto simp: tr_foreign_def split: event.splits)
  let ?buf = "recvfrom buf bs"
  have len: "length ?buf = PACKET_RECV" using Cons.prems by simp
  have "tr_wait pid buf ((e # noise) @ es) = tr_wait pid ?buf (noise @ es)"
    using e len by (auto simp: Let_def ld8_eq ld16_eq recvfrom_nth)
  then show ?case using Cons.IH [OF _ len] Cons.prems by simp
qed auto

lemma tr_wait_answers:
  assumes "answers pid h es" "length buf = PACKET_RECV"
  shows "\<exists>buf' left. length buf' = PACKET_RECV \<and> tr_wait pid buf es = Some (Answered h buf' left)"
proof -
  from assms(1) obtain noise bs left rest where es: "es = noise @ Datagram bs left # rest"
    "list_all (tr_foreign pid) noise" and bs: "28 \<le> length bs" "source bs = fst h"
    "if snd h then bs ! 20 = 0 \<and> int (unat (ntohs (word16_of (bs ! 24) (bs ! 25)))) = pid else bs ! 20 = 11"
    by (auto simp: answers_def)
  obtain buf' where buf': "length buf' = PACKET_RECV"
    "tr_wait pid buf es = tr_wait pid buf' (Datagram bs left # rest)"
    using tr_wait_foreign [OF es(2) assms(2)] es(1) by metis
  have "tr_wait pid buf' (Datagram bs left # rest) = Some (Answered h (recvfrom buf' bs) left)"
    using bs buf'(1)
    by (cases h) (auto simp: Let_def ld8_eq ld16_eq ld32_eq recvfrom_nth source_def split: if_splits)
  with buf' show ?thesis by auto
qed

lemma tr_wait_cases:
  assumes "length buf = PACKET_RECV"
  shows "\<exists>r. tr_wait pid buf es = Some r
    \<and> (\<forall>buf'. r = Timed_Out buf' \<longrightarrow> length buf' = PACKET_RECV)
    \<and> (\<forall>h buf' left. r = Answered h buf' left \<longrightarrow> length buf' = PACKET_RECV)"
  using assms
proof (induction pid buf es rule: tr_wait.induct)
  case (4 pid buf bs left es)
  let ?buf = "recvfrom buf bs"
  have len: "length ?buf = PACKET_RECV" using 4 by simp
  consider "?buf ! 20 = 11" | "?buf ! 20 = 0" "int (unat (ntohs (word16_of (?buf ! 24) (?buf ! 25)))) = pid"
    | "?buf ! 20 \<noteq> 11" "?buf ! 20 = 0 \<longrightarrow> int (unat (ntohs (word16_of (?buf ! 24) (?buf ! 25)))) \<noteq> pid"
    by blast
  then show ?case
    by cases (use 4 len in \<open>auto simp: Let_def ld8_eq ld16_eq ld32_eq\<close>)
qed auto

text \<open>Sizes, and the probes that were sent: numbered from one, each a well-formed request.\<close>

definition tr_ok :: "int \<Rightarrow> trace \<Rightarrow> bool" where
  "tr_ok pid t \<longleftrightarrow> length (tr_send t) = PACKET_SEND \<and> length (tr_recv t) = PACKET_RECV
     \<and> map fst (probes t) = map (\<lambda>j. int j + 1) [0..<length (probes t)]
     \<and> list_all (\<lambda>(i, r). request_ok pid i r) (probes t) \<and> length (tr_lines t) \<le> length (probes t)"

lemma tr_round_ok:
  assumes "tr_ok pid t" "i = int (length (probes t)) + 1"
  shows "\<exists>t' st. tr_round pid timeout set_ttl i es t = Some (t', st) \<and> tr_ok pid t'
    \<and> length (probes t') \<le> length (probes t) + 1
    \<and> (st = Going \<longrightarrow> length (probes t') = length (probes t) + 1)"
proof -
  obtain m where m: "echo_request tr_checksum pid i (tr_send t) = Some m" "request_ok pid i m"
    using tr_request_ok [of "tr_send t" pid i] assms(1) by (auto simp: tr_ok_def)
  obtain r where r: "tr_wait pid (tr_recv t) es = Some r"
    "\<And>buf'. r = Timed_Out buf' \<Longrightarrow> length buf' = PACKET_RECV"
    "\<And>h buf' left. r = Answered h buf' left \<Longrightarrow> length buf' = PACKET_RECV"
    using tr_wait_cases [of "tr_recv t" pid es] assms(1) by (auto simp: tr_ok_def)
  have "length m = PACKET_SEND" using m(2) by (simp add: request_ok_def)
  then show ?thesis using assms m r by (cases r) (auto simp: tr_round_def tr_ok_def Let_def)
qed

lemma tr_run_ok:
  assumes "tr_ok pid t" "i = int (length (probes t)) + 1"
  shows "\<exists>t' st. tr_run pid timeout set_ttl ttl net i t = Some (t', st) \<and> tr_ok pid t'
    \<and> length (probes t') \<le> max (length (probes t)) (nat (ttl - 1)) \<and> st \<noteq> Going"
  using assms
proof (induction "nat (ttl - i)" arbitrary: i t rule: less_induct)
  case less
  show ?case
  proof (cases "i < ttl")
    case True
    obtain t1 st1 where t1: "tr_round pid timeout set_ttl i (net i) t = Some (t1, st1)" "tr_ok pid t1"
      "length (probes t1) \<le> length (probes t) + 1"
      "st1 = Going \<Longrightarrow> length (probes t1) = length (probes t) + 1"
      using tr_round_ok [OF less.prems] by blast
    show ?thesis
    proof (cases "st1 = Going")
      case True
      then have "i + 1 = int (length (probes t1)) + 1" using t1(4) less.prems by simp
      from less.hyps [OF _ t1(2) this] \<open>i < ttl\<close> t1 True less.prems show ?thesis
        by (subst tr_run.simps) (fastforce simp: max_def split: if_splits)
    next
      case False
      then show ?thesis using t1 \<open>i < ttl\<close> less.prems
        by (subst tr_run.simps) (auto simp: max_def)
    qed
  next
    case False
    then show ?thesis using less.prems by (subst tr_run.simps) auto
  qed
qed

lemma tr_round_answers:
  assumes "answers pid (a, fin) es" "length (tr_send t) = PACKET_SEND" "length (tr_recv t) = PACKET_RECV"
    and "set_ttl i"
  shows "\<exists>t' m el. tr_round pid timeout set_ttl i es t = Some (t', if fin then Exit else Going)
    \<and> length (tr_send t') = PACKET_SEND \<and> length (tr_recv t') = PACKET_RECV
    \<and> tr_lines t' = tr_lines t @ [Hop i a el] \<and> probes t' = probes t @ [(i, m)]"
proof -
  obtain m where m: "echo_request tr_checksum pid i (tr_send t) = Some m" "request_ok pid i m"
    using tr_request_ok [of "tr_send t" pid i] assms(2) by auto
  obtain buf' left where "length buf' = PACKET_RECV"
    "tr_wait pid (tr_recv t) es = Some (Answered (a, fin) buf' left)"
    using tr_wait_answers [OF assms(1,3)] by blast
  with m assms(4) show ?thesis by (simp add: tr_round_def Let_def request_ok_def)
qed

fun hop_addr :: "tr_out \<Rightarrow> (int \<times> u32) option" where
  "hop_addr (Hop i a _) = Some (i, a)"
| "hop_addr Tr_Timeout = None"

lemma tr_run_path:
  assumes "length (tr_send t) = PACKET_SEND" "length (tr_recv t) = PACKET_RECV"
    and "\<And>j. j < length rs \<Longrightarrow> answers pid (rs ! j, False) (net (i + int j))"
    and "answers pid (d, True) (net (i + int (length rs)))"
    and "\<And>j. j \<le> length rs \<Longrightarrow> set_ttl (i + int j)" "i + int (length rs) < ttl"
  shows "\<exists>t'. tr_run pid timeout set_ttl ttl net i t = Some (t', Exit)
    \<and> map hop_addr (tr_lines t') =
        map hop_addr (tr_lines t) @ map Some (zip [i..i + int (length rs)] (rs @ [d]))
    \<and> map fst (probes t') = map fst (probes t) @ [i..i + int (length rs)]"
  using assms
proof (induction rs arbitrary: i t)
  case Nil
  obtain t' m el where "tr_round pid timeout set_ttl i (net i) t = Some (t', Exit)"
    "tr_lines t' = tr_lines t @ [Hop i d el]" "probes t' = probes t @ [(i, m)]"
    using tr_round_answers [of pid d True "net i" t set_ttl i timeout] Nil.prems(4) Nil.prems(5) [of 0]
      Nil.prems(1,2) by auto
  then show ?case using Nil.prems by (subst tr_run.simps) auto
next
  case (Cons r rs)
  obtain t' m el where t': "tr_round pid timeout set_ttl i (net i) t = Some (t', Going)"
    "length (tr_send t') = PACKET_SEND" "length (tr_recv t') = PACKET_RECV"
    "tr_lines t' = tr_lines t @ [Hop i r el]" "probes t' = probes t @ [(i, m)]"
    using tr_round_answers [of pid r False "net i" t set_ttl i timeout] Cons.prems(3) [of 0]
      Cons.prems(5) [of 0] Cons.prems(1,2) by auto
  have up: "[i..i + int (length (r # rs))] = i # [i + 1..i + 1 + int (length rs)]"
    by (subst upto.simps) (simp add: ac_simps)
  have "\<exists>t''. tr_run pid timeout set_ttl ttl net (i + 1) t' = Some (t'', Exit)
    \<and> map hop_addr (tr_lines t'') =
        map hop_addr (tr_lines t') @ map Some (zip [i + 1..i + 1 + int (length rs)] (rs @ [d]))
    \<and> map fst (probes t'') = map fst (probes t') @ [i + 1..i + 1 + int (length rs)]"
  proof (rule Cons.IH [OF t'(2,3)])
    show "answers pid (rs ! j, False) (net (i + 1 + int j))" if "j < length rs" for j
      using Cons.prems(3) [of "Suc j"] that by (simp add: ac_simps)
    show "answers pid (d, True) (net (i + 1 + int (length rs)))" "i + 1 + int (length rs) < ttl"
      using Cons.prems(4,6) by (simp_all add: ac_simps)
    show "set_ttl (i + 1 + int j)" if "j \<le> length rs" for j
      using Cons.prems(5) [of "Suc j"] that by (simp add: ac_simps)
  qed
  then show ?case unfolding up using Cons.prems(6) t' by (subst tr_run.simps) auto
qed

section \<open>Properties\<close>

text \<open>A reply as the destination sends it: an IP header, the request with the type of a reply.\<close>

definition reply_to :: "byte list \<Rightarrow> byte \<Rightarrow> byte \<Rightarrow> byte list \<Rightarrow> byte list" where
  "reply_to hdr c0 c1 req = hdr @ [0, 0, c0, c1] @ drop 4 req"

lemma reply_to_fields:
  assumes "request_ok pid n req" "length hdr = 20" "bs = reply_to hdr c0 c1 req"
  shows "length bs = PACKET_RECV" "bs ! 20 = 0" "bs ! 21 = 0"
    "word16_of (bs ! 24) (bs ! 25) = htons (word_of_int pid)"
    "word16_of (bs ! 26) (bs ! 27) = htons (word_of_int n)"
proof -
  have req: "length req = PACKET_SEND" "word16_of (req ! 4) (req ! 5) = htons (word_of_int pid)"
    "word16_of (req ! 6) (req ! 7) = htons (word_of_int n)"
    using assms(1) by (auto simp: request_ok_def ld16_eq)
  have "bs ! (24 + k) = req ! (4 + k)" if "k < 52" for k
    using that assms(2) req(1) by (simp add: assms(3) reply_to_def nth_append)
  from this [of 0] this [of 1] this [of 2] this [of 3] req
  show "length bs = PACKET_RECV" "bs ! 20 = 0" "bs ! 21 = 0"
    "word16_of (bs ! 24) (bs ! 25) = htons (word_of_int pid)"
    "word16_of (bs ! 26) (bs ! 27) = htons (word_of_int n)"
    by (simp_all add: assms(3) reply_to_def nth_append assms(2))
qed

lemma unat_port: "unat (word_of_int k :: u16) = nat (k mod 65536)"
  by (simp add: unsigned_of_int take_bit_eq_mod)

text \<open>
  C29. An echo request and its reply: the request that ping builds has the right type and code, its
  identifier and sequence number in network order, the old payload and a checksum that verifies;
  and whatever other datagrams come first, the reply to it ends the wait and is printed with
  the process's identifier and the sequence number modulo 65536. This holds for process
  identifiers below 65536.
\<close>

theorem ping_roundtrip:
  assumes "0 \<le> pid" "pid < 65536" "length hdr = 20" "length m = PACKET_SEND" "length buf = PACKET_RECV"
    and "list_all (ping_foreign pid) noise"
  shows "\<exists>req buf'. echo_request ping_checksum pid n m = Some req \<and> request_ok pid n req
    \<and> drop 8 req = drop 8 m
    \<and> ping_wait pid buf (noise @ Datagram (reply_to hdr c0 c1 req) left # rest) =
        Some (Answered \<lparr>il_type = 0, il_code = 0, il_id = nat pid, il_seq = nat (n mod 65536)\<rparr> buf' left)"
proof -
  obtain req where req: "echo_request ping_checksum pid n m = Some req" "request_ok pid n req"
    "drop 8 req = drop 8 m" using ping_request_ok [OF assms(4)] by blast
  define bs where "bs = reply_to hdr c0 c1 req"
  obtain buf' where buf': "length buf' = PACKET_RECV"
    "ping_wait pid buf (noise @ Datagram bs left # rest) = ping_wait pid buf' (Datagram bs left # rest)"
    using ping_wait_foreign [OF assms(6,5)] by metis
  note fields = reply_to_fields [OF req(2) assms(3) bs_def]
  have "unat (word_of_int pid :: u16) = nat pid" using assms(1,2) by (simp add: unat_port)
  then have "ping_wait pid buf' (Datagram bs left # rest) =
      Some (Answered \<lparr>il_type = 0, il_code = 0, il_id = nat pid, il_seq = nat (n mod 65536)\<rparr>
        (recvfrom buf' bs) left)"
    using fields buf'(1) assms(1)
    by (simp add: Let_def ld8_eq ld16_eq recvfrom_nth print_icmp_def unat_port del: of_nat_unat)
  with req buf' show ?thesis unfolding bs_def by auto
qed

theorem ping_roundtrip_witness:
  "\<exists>req buf'. echo_request ping_checksum 4711 70000 (replicate 56 1) = Some req
    \<and> ping_wait 4711 (replicate 76 7)
        [Datagram (replicate 84 3) \<lparr>tv_sec = 0, tv_usec = 9\<rparr>,
         Datagram (reply_to (replicate 20 69) 0 0 req) \<lparr>tv_sec = 0, tv_usec = 5\<rparr>] =
      Some (Answered \<lparr>il_type = 0, il_code = 0, il_id = 4711, il_seq = 4464\<rparr> buf' \<lparr>tv_sec = 0, tv_usec = 5\<rparr>)"
  using ping_roundtrip [of 4711 "replicate 20 69" "replicate 56 1" "replicate 76 7"
      "[Datagram (replicate 84 3) \<lparr>tv_sec = 0, tv_usec = 9\<rparr>]" 70000 0 0 "\<lparr>tv_sec = 0, tv_usec = 5\<rparr>" "[]"]
  by (auto simp: ping_foreign_def)

text \<open>
  C30. What ping reports at an interrupt: after any number of rounds (below \<open>2 ^ 31\<close>) nothing
  undefined has happened, \<open>seq\<close> is the number of requests sent, the \<open>i\<close>-th of which carries the
  number \<open>i\<close> and verifies, and \<open>total\<close> is the number of replies printed, at most \<open>seq\<close>. But
  with a process identifier of 65536 or more no reply is ever counted.
\<close>

theorem ping_counts:
  assumes "length m = PACKET_SEND" "length buf = PACKET_RECV" "int (length ess) < 2 ^ 31"
  shows "\<exists>p st. ping_run pid timeout ess (ping_start m buf) = Some (p, st)
    \<and> signal_handler 2 p = Some (int (length (requests p)), int (length (filter is_reply (lines p))))
    \<and> length (filter is_reply (lines p)) \<le> length (requests p)
    \<and> list_all (\<lambda>(i, r). request_ok pid (int i + 1) r) (enumerate 0 (requests p))
    \<and> (st = Going \<longrightarrow> length (requests p) = length ess \<and> length (lines p) = length ess)
    \<and> (65536 \<le> pid \<longrightarrow> filter is_reply (lines p) = [])"
proof -
  have "ping_ok pid (ping_start m buf)" using assms by (simp add: ping_ok_def ping_start_def)
  then obtain p st where p: "ping_run pid timeout ess (ping_start m buf) = Some (p, st)" "ping_ok pid p"
    "st = Going \<longrightarrow> seq p = int (length ess) \<and> length (lines p) = length ess"
    using ping_run_ok [of pid "ping_start m buf" ess timeout] assms(3) by (auto simp: ping_start_def)
  then have "length (filter is_reply (lines p)) \<le> length (requests p)"
    using le_trans [OF length_filter_le] by (auto simp: ping_ok_def)
  with p show ?thesis by (auto simp: ping_ok_def signal_handler_def)
qed

theorem ping_counts_witness:
  "\<exists>p st. ping_run 70000 \<lparr>tv_sec = 1, tv_usec = 0\<rparr> [[Select_Timeout]] (ping_start (replicate 56 0) (replicate 76 0)) = Some (p, st)
    \<and> filter is_reply (lines p) = []"
  using ping_counts [of "replicate 56 0" "replicate 76 0" "[[Select_Timeout]]" 70000 "\<lparr>tv_sec = 1, tv_usec = 0\<rparr>"]
  by auto

text \<open>traceroute ends, after at most \<open>ttl - 1\<close> probes.\<close>

lemma tr_main_terminates:
  assumes "length m = PACKET_SEND" "length buf = PACKET_RECV"
  shows "\<exists>t st. tr_main ppid timeout set_ttl ttl net m buf = Some (t, st) \<and> st \<noteq> Going
    \<and> length (probes t) \<le> nat (ttl - 1) \<and> length (tr_lines t) \<le> length (probes t)
    \<and> map fst (probes t) = map (\<lambda>j. int j + 1) [0..<length (probes t)]
    \<and> list_all (\<lambda>(i, r). request_ok ppid i r) (probes t)"
proof -
  have "tr_ok ppid (tr_start m buf)" using assms by (simp add: tr_ok_def tr_start_def)
  then obtain t st where "tr_main ppid timeout set_ttl ttl net m buf = Some (t, st)" "tr_ok ppid t"
    "length (probes t) \<le> nat (ttl - 1)" "st \<noteq> Going"
    using tr_run_ok [of ppid "tr_start m buf" 1 timeout set_ttl ttl net]
    by (auto simp: tr_main_def tr_start_def)
  then show ?thesis by (auto simp: tr_ok_def)
qed

text \<open>
  C32. traceroute prints the route: when the probe with time to live \<open>j + 1\<close> is answered by the
  \<open>j\<close>-th router on the way and the next one by the destination, after whatever other datagrams,
  it prints exactly the routers in order and then the destination, each with its distance, and
  stops; no probe is sent past the destination.
\<close>

theorem traceroute_path:
  assumes "length m = PACKET_SEND" "length buf = PACKET_RECV"
    and "\<forall>j < length rs. answers ppid (rs ! j, False) (net (1 + int j))"
    and "answers ppid (d, True) (net (1 + int (length rs)))"
    and "\<forall>j \<le> length rs. set_ttl (1 + int j)" "1 + int (length rs) < ttl"
  shows "\<exists>t. tr_main ppid timeout set_ttl ttl net m buf = Some (t, Exit)
    \<and> map hop_addr (tr_lines t) = map Some (zip [1..1 + int (length rs)] (rs @ [d]))
    \<and> map fst (probes t) = [1..1 + int (length rs)]"
  using tr_run_path [of "tr_start m buf" rs ppid net 1 d set_ttl ttl timeout] assms
  by (simp add: tr_main_def tr_start_def)

theorem traceroute_path_witness:
  "\<exists>t. tr_main 9 \<lparr>tv_sec = 1, tv_usec = 0\<rparr> (\<lambda>_. True) 255
      (\<lambda>i. if i = 1 then [Datagram (replicate 28 11) \<lparr>tv_sec = 0, tv_usec = 0\<rparr>]
           else [Datagram (replicate 24 0 @ [0, 9, 0, 2]) \<lparr>tv_sec = 0, tv_usec = 0\<rparr>])
      (replicate 56 0) (replicate 76 0) = Some (t, Exit)
    \<and> map hop_addr (tr_lines t) = [Some (1, word32_of 11 11 11 11), Some (2, word32_of 0 0 0 0)]"
proof -
  let ?z = "\<lparr>tv_sec = 0, tv_usec = 0\<rparr>"
  let ?net = "\<lambda>i :: int. if i = 1 then [Datagram (replicate 28 11) ?z]
    else [Datagram (replicate 24 0 @ [0, 9, 0, 2]) ?z]"
  have "answers 9 (word32_of 11 11 11 11, False) (?net 1)"
    unfolding answers_def by (rule exI [of _ "[]"]) (simp add: source_def)
  moreover have "answers 9 (word32_of 0 0 0 0, True) (?net 2)"
    unfolding answers_def
    by (rule exI [of _ "[]"]) (simp add: source_def nth_append word16_of_def bswap16_def)
  moreover have "[1..2 :: int] = [1, 2]" by (simp add: upto.simps)
  ultimately have "\<exists>t. tr_main 9 \<lparr>tv_sec = 1, tv_usec = 0\<rparr> (\<lambda>_. True) 255 ?net
      (replicate 56 0) (replicate 76 0) = Some (t, Exit)
    \<and> map hop_addr (tr_lines t) = [Some (1, word32_of 11 11 11 11), Some (2, word32_of 0 0 0 0)]
    \<and> map fst (probes t) = [1, 2]"
    using traceroute_path [of "replicate 56 0" "replicate 76 0" "[word32_of 11 11 11 11]" 9 ?net
        "word32_of 0 0 0 0" "\<lambda>_. True" 255 "\<lparr>tv_sec = 1, tv_usec = 0\<rparr>"] by simp
  then show ?thesis by (elim exE conjE) (intro exI conjI)
qed

end
