(* ===== verification/IcmpMain.thy ===== *)
theory IcmpMain
  imports Icmp
begin

text \<open>
  The start of ping/main.c and traceroute/main.c, and with it both whole programs: the command line,
  the destination, the socket. \<^verbatim>\<open>getopt\<close> yields the options with their arguments; \<^verbatim>\<open>atoi\<close> and
  \<^verbatim>\<open>inet_pton\<close> (the address, or \<^const>\<open>None\<close> where the text is none) are the library's. The replies of
  the kernel to the calls of \<^verbatim>\<open>socket\<close> come first, a failure as the negated error number.
\<close>

section \<open>The command line\<close>

text \<open>The local variables that the options set: \<^verbatim>\<open>ip\<close> and the timeout of ping, \<^verbatim>\<open>ip\<close> and \<^verbatim>\<open>ttl\<close> of traceroute.\<close>

fun ping_option :: "(string \<Rightarrow> int) \<Rightarrow> string \<times> timeval \<Rightarrow> char \<times> string \<Rightarrow> string \<times> timeval" where
  "ping_option atoi (ip, timeout) (opt, optarg) =
     (if opt = CHR ''i'' then (optarg, timeout)
      else if opt = CHR ''t'' then (ip, timeout\<lparr>tv_sec := atoi optarg\<rparr>)
      else (ip, timeout))"

fun tr_option :: "(string \<Rightarrow> int) \<Rightarrow> string \<times> int \<Rightarrow> char \<times> string \<Rightarrow> string \<times> int" where
  "tr_option atoi (ip, ttl) (opt, optarg) =
     (if opt = CHR ''i'' then (optarg, ttl)
      else if opt = CHR ''t'' then (ip, atoi optarg)
      else (ip, ttl))"

text \<open>The result of \<^verbatim>\<open>inet_pton\<close> is not looked at: without an address the destination keeps what the stack held.\<close>

definition destination :: "(string \<Rightarrow> u32 option) \<Rightarrow> u32 \<Rightarrow> string \<Rightarrow> u32" where
  "destination inet_pton stack ip = (case inet_pton ip of None \<Rightarrow> stack | Some a \<Rightarrow> a)"

section \<open>The socket\<close>

datatype opened = Opening | Failed | Opened int

text \<open>The macro RETRY around \<^verbatim>\<open>socket\<close>: an interrupted call is repeated.\<close>

fun icmp_socket :: "int list \<Rightarrow> opened" where
  "icmp_socket [] = Opening"
| "icmp_socket (r # rs) =
     (if r = - 4 then icmp_socket rs else if r < 0 then Failed else Opened r)"

text \<open>
  The socket is put into the set that \<^verbatim>\<open>select\<close> is given, which has room for 1024 descriptors.
\<close>

definition with_socket :: "int list \<Rightarrow> 's \<Rightarrow> ('s \<times> status) option \<Rightarrow> ('s \<times> status) option" where
  "with_socket rs s k = (case icmp_socket rs of
     Opening \<Rightarrow> Some (s, Stuck)
   | Failed \<Rightarrow> Some (s, Exit)
   | Opened sock \<Rightarrow> if sock < 1024 then k else None)"

section \<open>Both programs\<close>

text \<open>The result: the destination of every request, and the state at the end.\<close>

definition ping_main :: "(string \<Rightarrow> int) \<Rightarrow> (string \<Rightarrow> u32 option) \<Rightarrow> int \<Rightarrow> (char \<times> string) list \<Rightarrow> u32
    \<Rightarrow> int list \<Rightarrow> event list list \<Rightarrow> byte list \<Rightarrow> byte list \<Rightarrow> u32 \<times> (ping \<times> status) option" where
  "ping_main atoi inet_pton pid opts stack rs ess sbuf rbuf =
     (let (ip, timeout) = foldl (ping_option atoi) (''8.8.8.8'', \<lparr>tv_sec = 1, tv_usec = 0\<rparr>) opts
      in (destination inet_pton stack ip,
          with_socket rs (ping_start sbuf rbuf) (ping_run pid timeout ess (ping_start sbuf rbuf))))"

definition traceroute_main :: "(string \<Rightarrow> int) \<Rightarrow> (string \<Rightarrow> u32 option) \<Rightarrow> int \<Rightarrow> (char \<times> string) list \<Rightarrow> u32
    \<Rightarrow> int list \<Rightarrow> (int \<Rightarrow> bool) \<Rightarrow> (int \<Rightarrow> event list) \<Rightarrow> byte list \<Rightarrow> byte list \<Rightarrow> u32 \<times> (trace \<times> status) option" where
  "traceroute_main atoi inet_pton ppid opts stack rs set_ttl net sbuf rbuf =
     (let (ip, ttl) = foldl (tr_option atoi) (''8.8.8.8'', 255) opts
      in (destination inet_pton stack ip,
          with_socket rs (tr_start sbuf rbuf)
            (tr_main ppid \<lparr>tv_sec = 1, tv_usec = 0\<rparr> set_ttl ttl net sbuf rbuf)))"

text \<open>
  The handler of traceroute prints its globals, of which \<open>total\<close> is never counted: an
  interrupt in the middle of a trace reports the distance of the last probe and 0.
\<close>

definition tr_signal_handler :: "int \<Rightarrow> trace \<Rightarrow> (int \<times> int) option" where
  "tr_signal_handler signo t =
     (let seq = (if probes t = [] then 0 else fst (last (probes t))); total = 0
      in if signo = 2 \<or> signo = 15 then Some (seq, total) else None)"

section \<open>Lemmas\<close>

text \<open>The value of an option: the last one that was given, or the default.\<close>

definition opt_value :: "char \<Rightarrow> 'a \<Rightarrow> (string \<Rightarrow> 'a) \<Rightarrow> (char \<times> string) list \<Rightarrow> 'a" where
  "opt_value c d f opts =
     (let xs = filter (\<lambda>x. fst x = c) opts in if xs = [] then d else f (snd (last xs)))"

lemma opt_value_simps [simp]:
  "opt_value c d f [] = d"
  "opt_value c d f (opts @ [(o', a)]) = (if o' = c then f a else opt_value c d f opts)"
  by (simp_all add: opt_value_def Let_def)

lemma ping_options:
  "foldl (ping_option atoi) (ip, t) opts =
     (opt_value CHR ''i'' ip id opts, t\<lparr>tv_sec := opt_value CHR ''t'' (tv_sec t) atoi opts\<rparr>)"
  by (induction opts rule: rev_induct) auto

lemma tr_options:
  "foldl (tr_option atoi) (ip, t) opts = (opt_value CHR ''i'' ip id opts, opt_value CHR ''t'' t atoi opts)"
  by (induction opts rule: rev_induct) auto

text \<open>Interrupted calls do not change the outcome.\<close>

lemma icmp_socket_retries: "icmp_socket (replicate n (- 4) @ rs) = icmp_socket rs"
  by (induction n) simp_all

text \<open>What holds at the start and at the end of the run holds at the end of the program.\<close>

lemma with_socket_result:
  assumes "\<forall>sock. icmp_socket rs = Opened sock \<longrightarrow> sock < 1024" "k = Some (t, st)" "P s Stuck" "P s Exit" "P t st"
  shows "\<exists>u st'. with_socket rs s k = Some (u, st') \<and> P u st'"
  using assms by (cases "icmp_socket rs") (auto simp: with_socket_def)

lemma with_socket_opened:
  "icmp_socket rs = Opened sock \<Longrightarrow> sock < 1024 \<Longrightarrow> with_socket rs s k = k"
  by (simp add: with_socket_def)

text \<open>What a trace has done when it is over, and what an interrupt then reports.\<close>

definition tr_done :: "int \<Rightarrow> int \<Rightarrow> trace \<Rightarrow> bool" where
  "tr_done ppid ttl t \<longleftrightarrow> length (probes t) \<le> nat (ttl - 1)
     \<and> length (tr_lines t) \<le> length (probes t)
     \<and> map fst (probes t) = map (\<lambda>j. int j + 1) [0..<length (probes t)]
     \<and> list_all (\<lambda>(i, r). request_ok ppid i r) (probes t)"

lemma tr_done_reports:
  assumes "tr_done ppid ttl t"
  shows "tr_signal_handler 2 t = Some (int (length (probes t)), 0)"
proof (cases "probes t" rule: rev_cases)
  case (snoc ps p)
  have "last (map fst (probes t)) = last (map (\<lambda>j. int j + 1) [0..<length (probes t)])"
    using assms by (simp only: tr_done_def)
  then have "fst p = int (length ps) + 1" by (simp add: snoc)
  then show ?thesis by (simp add: tr_signal_handler_def Let_def snoc)
qed (simp add: tr_signal_handler_def)

text \<open>
  ping, from its command line on: whatever the options and the answers are, the socket and its
  set apart, nothing undefined happens, and what an interrupt prints are the numbers of
  requests and of printed replies.
\<close>

lemma ping_main_counts:
  assumes "length m = PACKET_SEND" "length buf = PACKET_RECV" "int (length ess) < 2 ^ 31"
    and "\<forall>sock. icmp_socket rs = Opened sock \<longrightarrow> sock < 1024"
  shows "\<exists>p st. ping_main atoi pton pid opts stack rs ess m buf =
      (destination pton stack (opt_value CHR ''i'' ''8.8.8.8'' id opts), Some (p, st))
    \<and> signal_handler 2 p = Some (int (length (requests p)), int (length (filter is_reply (lines p))))"
proof -
  let ?t = "\<lparr>tv_sec = opt_value CHR ''t'' 1 atoi opts, tv_usec = 0\<rparr>"
  have ok: "ping_ok pid (ping_start m buf)" using assms by (simp add: ping_ok_def ping_start_def)
  then obtain p st where p: "ping_run pid ?t ess (ping_start m buf) = Some (p, st)" "ping_ok pid p"
    using ping_run_ok [of pid "ping_start m buf" ess ?t] assms(3) by (auto simp: ping_start_def)
  obtain q st' where q: "with_socket rs (ping_start m buf) (ping_run pid ?t ess (ping_start m buf)) = Some (q, st')"
    "ping_ok pid q"
    using with_socket_result [OF assms(4) p(1), of "\<lambda>p _. ping_ok pid p" "ping_start m buf"] ok p(2) by blast
  have "ping_main atoi pton pid opts stack rs ess m buf =
      (destination pton stack (opt_value CHR ''i'' ''8.8.8.8'' id opts), Some (q, st'))"
    using q(1) by (simp add: ping_main_def ping_options)
  then show ?thesis using q(2) by (auto simp: ping_ok_def signal_handler_def)
qed

section \<open>Properties\<close>

text \<open>
  C31. traceroute ends, from its command line on: for every list of options, every network and every
  answer to its calls (a descriptor that fits into a set apart) it stops, or waits in a call, after
  at most \<open>ttl - 1\<close> probes, never outside its buffers; \<open>ttl\<close> is the last number given with -t,
  or 255. The probes go out to one address, with the times to live 1, 2, 3 and so on, each a
  well-formed request with that number; no probe has more than one line printed for it, and
  an interrupt reports the number of probes and no answers.
\<close>

theorem traceroute_terminates:
  assumes "length m = PACKET_SEND" "length buf = PACKET_RECV"
    and "\<forall>sock. icmp_socket rs = Opened sock \<longrightarrow> sock < 1024"
  shows "\<exists>t st. traceroute_main atoi pton ppid opts stack rs set_ttl net m buf =
      (destination pton stack (opt_value CHR ''i'' ''8.8.8.8'' id opts), Some (t, st)) \<and> st \<noteq> Going
    \<and> length (probes t) \<le> nat (opt_value CHR ''t'' 255 atoi opts - 1)
    \<and> length (tr_lines t) \<le> length (probes t)
    \<and> map fst (probes t) = map (\<lambda>j. int j + 1) [0..<length (probes t)]
    \<and> list_all (\<lambda>(i, r). request_ok ppid i r) (probes t)
    \<and> tr_signal_handler 2 t = Some (int (length (probes t)), 0)"
proof -
  let ?ttl = "opt_value CHR ''t'' 255 atoi opts" and ?time = "\<lparr>tv_sec = 1, tv_usec = 0\<rparr>"
  obtain t st where t: "tr_main ppid ?time set_ttl ?ttl net m buf = Some (t, st)" "tr_done ppid ?ttl t" "st \<noteq> Going"
    using tr_main_terminates [OF assms(1,2), of ppid ?time set_ttl ?ttl net] by (auto simp: tr_done_def)
  have "tr_done ppid ?ttl (tr_start m buf)" by (simp add: tr_done_def tr_start_def)
  then obtain u st' where u: "with_socket rs (tr_start m buf) (tr_main ppid ?time set_ttl ?ttl net m buf) = Some (u, st')"
    "tr_done ppid ?ttl u" "st' \<noteq> Going"
    using with_socket_result [OF assms(3) t(1), of "\<lambda>t st. tr_done ppid ?ttl t \<and> st \<noteq> Going" "tr_start m buf"] t(2,3) by auto
  then have "traceroute_main atoi pton ppid opts stack rs set_ttl net m buf =
      (destination pton stack (opt_value CHR ''i'' ''8.8.8.8'' id opts), Some (u, st'))"
    by (simp add: traceroute_main_def tr_options)
  then show ?thesis using u(2,3) tr_done_reports [OF u(2)] by (auto simp: tr_done_def)
qed

theorem traceroute_terminates_witness:
  "\<exists>t st. traceroute_main (\<lambda>_. 3) (\<lambda>_. None) 9 [(CHR ''t'', ''3'')] 7 [- 4, 5] (\<lambda>_. True)
      (\<lambda>_. [Select_Timeout]) (replicate 56 0) (replicate 76 0) = (7, Some (t, st))
    \<and> st \<noteq> Going \<and> length (probes t) \<le> 2"
  using traceroute_terminates [of "replicate 56 0" "replicate 76 0" "[- 4, 5]" "\<lambda>_. 3" "\<lambda>_. None" 9
      "[(CHR ''t'', ''3'')]" 7 "\<lambda>_. True" "\<lambda>_. [Select_Timeout]"]
  by (simp add: opt_value_def destination_def) blast

end
