(* ===== verification/Syscalls.thy ===== *)
theory Syscalls
  imports Prelude
begin

text \<open>
  Programs that do little but call the kernel. Such a program is a function from the replies that
  the kernel will give, in the order of the calls, to the trace of what the program does: its
  calls with their replies, its output, and how it ends. A trace that ends in \<open>Pending\<close> is one of
  a program that still waits in that call. \<open>sys\<close> makes one call and goes on with the reply; the
  loops recurse through it, so they end for every list of replies.
\<close>

section \<open>Calls, replies and traces\<close>

record sockaddr =
  sin_port :: u16
  sin_addr :: u32

abbreviation (input) SOCK_STREAM :: int where "SOCK_STREAM \<equiv> 1"
abbreviation (input) SOCK_DGRAM :: int where "SOCK_DGRAM \<equiv> 2"
abbreviation (input) SOCK_RAW :: int where "SOCK_RAW \<equiv> 3"
abbreviation (input) INADDR_ANY :: u32 where "INADDR_ANY \<equiv> 0"
abbreviation (input) INADDR_BROADCAST :: u32 where "INADDR_BROADCAST \<equiv> 0xFFFFFFFF"

datatype call =
    Socket int int
  | Bind int sockaddr
  | Listen int int
  | Connect int sockaddr
  | Accept int
  | Setsockopt int int int "byte list"
  | Recv int nat
  | Send int "byte list"
  | Sendto int "byte list" sockaddr
  | Close int
  | Epoll_Create int
  | Epoll_Add int int
  | Fork
  | Umask int
  | Setsid
  | Signal int
  | Chdir string
  | Syslog string
  | Pipe
  | Msgget nat
  | Msgctl_Rmid int
  | Read int nat
  | Write int "byte list"
  | Wait

text \<open>A number, the bytes that a receive brings, with the address of their sender, or two descriptors.\<close>

datatype reply = Ret int | Data "byte list" sockaddr | Fds int int

fun ret :: "reply \<Rightarrow> int" where
  "ret (Ret i) = i"
| "ret (Data bs _) = int (length bs)"
| "ret (Fds _ _) = 0"

datatype event =
    Sys call reply
  | Pending call
  | Printf string "byte list"
  | Puts string
  | Sleep nat
  | Die nat
  | Exit int
  | Undefined

type_synonym program = "reply list \<Rightarrow> event list"

definition sys :: "call \<Rightarrow> (reply \<Rightarrow> program) \<Rightarrow> program" where
  "sys c k rs = (case rs of [] \<Rightarrow> [Pending c] | r # rs' \<Rightarrow> Sys c r # k r rs')"

lemma sys_simps [simp]:
  "sys c k [] = [Pending c]" "sys c k (r # rs) = Sys c r # k r rs"
  by (simp_all add: sys_def)

text \<open>What follows a call sees fewer replies; this is what makes the loops end.\<close>

lemma sys_cong [fundef_cong]:
  assumes "c = c'" "rs = rs'" "\<And>r ss. rs' = r # ss \<Longrightarrow> k r ss = k' r ss"
  shows "sys c k rs = sys c' k' rs'"
  using assms by (cases rs') simp_all

section \<open>Receiving and printing\<close>

text \<open>
  A receive into the first \<open>n\<close> bytes of a buffer: the count, the buffer and the sender. A reply
  without data is a failure.
\<close>

fun recv_into :: "nat \<Rightarrow> byte list \<Rightarrow> reply \<Rightarrow> int \<times> byte list" where
  "recv_into n buf (Ret i) = (- 1, buf)"
| "recv_into n buf (Fds i j) = (- 1, buf)"
| "recv_into n buf (Data bs a) =
     (int (length (take n bs)), take n bs @ drop (length (take n bs)) buf)"

fun sender :: "sockaddr \<Rightarrow> reply \<Rightarrow> sockaddr" where
  "sender a (Ret i) = a"
| "sender a (Fds i j) = a"
| "sender a (Data bs b) = b"

text \<open>\<^verbatim>\<open>buf[n] = 0\<close> and \<^verbatim>\<open>printf("...%s", buf)\<close>, which leave the buffer when they can.\<close>

definition poke :: "byte list \<Rightarrow> int \<Rightarrow> byte \<Rightarrow> (byte list \<Rightarrow> event list) \<Rightarrow> event list" where
  "poke buf i b k = (case st8 buf (nat i) b of None \<Rightarrow> [Undefined] | Some buf' \<Rightarrow> k buf')"

definition print_s :: "string \<Rightarrow> byte list \<Rightarrow> event list \<Rightarrow> event list" where
  "print_s text buf t = (if terminated buf then Printf text (cstr buf) # t else [Undefined])"

lemma poke_cong [fundef_cong]:
  assumes "buf = buf'" "i = i'" "b = b'" "\<And>m. k m = k' m"
  shows "poke buf i b k = poke buf' i' b' k'"
  using assms by (simp add: poke_def split: option.splits)

lemma poke_simps [simp]:
  "nat i < length buf \<Longrightarrow> poke buf i b k = k (buf[nat i := b])"
  "length buf \<le> nat i \<Longrightarrow> poke buf i b k = [Undefined]"
  by (simp_all add: poke_def st8_def)

lemma recv_into_length [simp]: "n \<le> length buf \<Longrightarrow> length (snd (recv_into n buf r)) = length buf"
  by (cases r) simp_all

lemma cstr_zero [simp]: "cstr (xs @ 0 # ys) = cstr xs"
  by (induction xs) simp_all

lemma poke_data:
  "length bs < length buf \<Longrightarrow> (bs @ drop (length bs) buf)[length bs := 0] = bs @ 0 # drop (Suc (length bs)) buf"
  using Cons_nth_drop_Suc [of "length bs" buf, symmetric] by (simp add: list_update_append)

section \<open>Descriptors\<close>

text \<open>
  The discipline of descriptors: every call is made on a descriptor that was opened before,
  successfully, and has not been closed since. Traces in which the kernel opens a descriptor that
  is still in use are not looked at any further.
\<close>

fun uses :: "call \<Rightarrow> int set" where
  "uses (Bind s _) = {s}"
| "uses (Listen s _) = {s}"
| "uses (Connect s _) = {s}"
| "uses (Accept s) = {s}"
| "uses (Setsockopt s _ _ _) = {s}"
| "uses (Recv s _) = {s}"
| "uses (Send s _) = {s}"
| "uses (Sendto s _ _) = {s}"
| "uses (Close s) = {s}"
| "uses (Epoll_Add e s) = {e, s}"
| "uses (Read s _) = {s}"
| "uses (Write s _) = {s}"
| "uses _ = {}"

fun opens :: "call \<Rightarrow> reply \<Rightarrow> int set" where
  "opens (Socket _ _) r = (if ret r < 0 then {} else {ret r})"
| "opens (Accept _) r = (if ret r < 0 then {} else {ret r})"
| "opens (Epoll_Create _) r = (if ret r < 0 then {} else {ret r})"
| "opens Pipe (Fds i j) = {i, j}"
| "opens _ r = {}"

fun closes :: "call \<Rightarrow> int set" where
  "closes (Close s) = {s}"
| "closes _ = {}"

fun fds_ok :: "int set \<Rightarrow> event list \<Rightarrow> bool" where
  "fds_ok fds [] = True"
| "fds_ok fds (Sys c r # t) = (uses c \<subseteq> fds \<and> (opens c r \<inter> fds = {} \<longrightarrow> fds_ok (fds \<union> opens c r - closes c) t))"
| "fds_ok fds (Pending c # t) = (uses c \<subseteq> fds \<and> fds_ok fds t)"
| "fds_ok fds (_ # t) = fds_ok fds t"

fun fds_left :: "int set \<Rightarrow> event list \<Rightarrow> int set" where
  "fds_left fds [] = fds"
| "fds_left fds (Sys c r # t) = fds_left (fds \<union> opens c r - closes c) t"
| "fds_left fds (_ # t) = fds_left fds t"

lemma fds_ok_sys:
  assumes "uses c \<subseteq> fds" "\<And>r ss. rs = r # ss \<Longrightarrow> opens c r \<inter> fds = {} \<Longrightarrow> fds_ok (fds \<union> opens c r - closes c) (k r ss)"
  shows "fds_ok fds (sys c k rs)"
  using assms by (cases rs) simp_all

lemma fds_ok_poke: "(\<And>m. fds_ok fds (k m)) \<Longrightarrow> fds_ok fds (poke buf i b k)"
  by (simp add: poke_def split: option.splits)

lemma fds_ok_print_s: "fds_ok fds t \<Longrightarrow> fds_ok fds (print_s text buf t)"
  by (simp add: print_s_def)

section \<open>Staying inside the buffers\<close>

definition defined :: "event list \<Rightarrow> bool" where
  "defined t \<longleftrightarrow> Undefined \<notin> set t"

lemma defined_simps [simp]:
  "defined []" "defined (e # t) \<longleftrightarrow> e \<noteq> Undefined \<and> defined t"
  "defined (t @ u) \<longleftrightarrow> defined t \<and> defined u"
  by (auto simp: defined_def)

lemma defined_sys: "(\<And>r ss. rs = r # ss \<Longrightarrow> defined (k r ss)) \<Longrightarrow> defined (sys c k rs)"
  by (cases rs) simp_all

lemma defined_poke_print:
  "nat i < length buf \<Longrightarrow> defined (t (buf[nat i := 0])) \<Longrightarrow>
   defined (poke buf i 0 (\<lambda>buf. print_s text buf (t buf)))"
  by (simp add: print_s_def) (metis length_list_update nth_list_update_eq nth_mem)

lemma defined_if: "(b \<Longrightarrow> defined t) \<Longrightarrow> (\<not> b \<Longrightarrow> defined u) \<Longrightarrow> defined (if b then t else u)"
  by simp

text \<open>What a trace sends, what it prints, and the options it sets.\<close>

fun sends :: "event list \<Rightarrow> (byte list \<times> sockaddr option) list" where
  "sends [] = []"
| "sends (Sys (Send _ bs) _ # t) = (bs, None) # sends t"
| "sends (Sys (Sendto _ bs a) _ # t) = (bs, Some a) # sends t"
| "sends (Sys (Write _ bs) _ # t) = (bs, None) # sends t"
| "sends (_ # t) = sends t"

fun prints :: "event list \<Rightarrow> byte list list" where
  "prints [] = []"
| "prints (Printf _ bs # t) = bs # prints t"
| "prints (_ # t) = prints t"

fun options :: "event list \<Rightarrow> byte list list" where
  "options [] = []"
| "options (Sys (Setsockopt _ _ _ bs) _ # t) = bs # options t"
| "options (Pending (Setsockopt _ _ _ bs) # t) = bs # options t"
| "options (_ # t) = options t"

fun binds :: "event list \<Rightarrow> sockaddr list" where
  "binds [] = []"
| "binds (Sys (Bind _ a) _ # t) = a # binds t"
| "binds (Pending (Bind _ a) # t) = a # binds t"
| "binds (_ # t) = binds t"

text \<open>\<^verbatim>\<open>die\<close> if a call fails, and \<^verbatim>\<open>&x\<close> as eight bytes.\<close>

definition ptr_bytes :: "64 word \<Rightarrow> byte list" where
  "ptr_bytes p = map (\<lambda>i. ucast (drop_bit (8 * i) p)) [0..<8]"

definition checked :: "call \<Rightarrow> nat \<Rightarrow> program \<Rightarrow> program" where
  "checked c line k = sys c (\<lambda>r. if ret r < 0 then (\<lambda>_. [Die line]) else k)"

lemma checked_simps [simp]:
  "checked c line k [] = [Pending c]"
  "checked c line k (r # rs) = Sys c r # (if ret r < 0 then [Die line] else k rs)"
  by (simp_all add: checked_def)

lemma fds_ok_checked:
  assumes "uses c \<subseteq> fds" "\<And>r ss. rs = r # ss \<Longrightarrow> 0 \<le> ret r \<Longrightarrow> opens c r \<inter> fds = {} \<Longrightarrow> fds_ok (fds \<union> opens c r - closes c) (k ss)"
  shows "fds_ok fds (checked c line k rs)"
  using assms by (cases rs) auto

end
