(* ===== verification/EchoServers.thy ===== *)
theory EchoServers
  imports Syscalls
begin

text \<open>
  The echo programs of udp\_tcp\_client\_server/main.c: a server and a client over UDP and over TCP.
  The stack buffers of the clients hold anything before the message is copied in. The address
  argument of the UDP client is the one that every receive overwrites.
\<close>

abbreviation (input) UDP_MSG_SIZE :: nat where "UDP_MSG_SIZE \<equiv> 256"
abbreviation (input) TCP_MSG_SIZE :: nat where "TCP_MSG_SIZE \<equiv> 256"

text \<open>\<^verbatim>\<open>strcpy(buf, "hello world!")\<close>\<close>

definition hello :: "byte list" where
  "hello = [104, 101, 108, 108, 111, 32, 119, 111, 114, 108, 100, 33]"

definition strcpy_hello :: "byte list \<Rightarrow> byte list" where
  "strcpy_hello buf = hello @ [0] @ drop 13 buf"

section \<open>UDP\<close>

fun server_udp_loop :: "int \<Rightarrow> byte list \<Rightarrow> sockaddr \<Rightarrow> program" where
  "server_udp_loop sock buf caddr rs =
     sys (Recv sock UDP_MSG_SIZE) (\<lambda>r rs.
       let (nread, buf) = recv_into UDP_MSG_SIZE buf r; caddr = sender caddr r in
       if nread < 0 then [Die 58]
       else poke buf nread 0 (\<lambda>buf. print_s ''recieve from client - '' buf
         (sys (Sendto sock buf caddr) (\<lambda>r rs.
            if ret r < 0 then [Die 63] else server_udp_loop sock buf caddr rs) rs))) rs"

declare server_udp_loop.simps [simp del]

definition server_udp :: "u16 \<Rightarrow> sockaddr \<Rightarrow> program" where
  "server_udp port caddr rs =
     sys (Socket SOCK_DGRAM 0) (\<lambda>r rs. let sock = ret r in
       if sock < 0 then [Die 40]
       else sys (Bind sock \<lparr>sin_port = htons port, sin_addr = htonl INADDR_ANY\<rparr>) (\<lambda>r rs.
         if ret r < 0 then [Die 52]
         else server_udp_loop sock (replicate UDP_MSG_SIZE 0) caddr rs) rs) rs"

fun client_udp_loop :: "int \<Rightarrow> byte list \<Rightarrow> sockaddr \<Rightarrow> program" where
  "client_udp_loop sock buf addr rs =
     Sleep 1 # sys (Sendto sock buf addr) (\<lambda>r rs.
       if ret r < 0 then [Die 93]
       else sys (Recv sock UDP_MSG_SIZE) (\<lambda>r rs.
         let (nread, buf) = recv_into UDP_MSG_SIZE buf r; addr = sender addr r in
         if nread < 0 then [Die 97]
         else poke buf nread 0 (\<lambda>buf. print_s ''recieve from server - '' buf
           (client_udp_loop sock buf addr rs))) rs) rs"

declare client_udp_loop.simps [simp del]

definition client_udp :: "u16 \<Rightarrow> byte list \<Rightarrow> program" where
  "client_udp port buf rs =
     (let buf = strcpy_hello buf in
      sys (Socket SOCK_DGRAM 0) (\<lambda>r rs. let sock = ret r in
        if sock < 0 then [Die 80]
        else client_udp_loop sock buf \<lparr>sin_port = htons port, sin_addr = htonl INADDR_ANY\<rparr> rs) rs)"

section \<open>TCP\<close>

fun server_tcp_loop :: "int \<Rightarrow> byte list \<Rightarrow> program" where
  "server_tcp_loop csock buf rs =
     sys (Recv csock TCP_MSG_SIZE) (\<lambda>r rs.
       let (nread, buf) = recv_into TCP_MSG_SIZE buf r in
       if nread < 0 then [Die 139]
       else poke buf nread 0 (\<lambda>buf. print_s ''recieve from client - '' buf
         (sys (Send csock (take (nat nread) buf)) (\<lambda>r rs.
            if ret r < 0 then [Die 145] else server_tcp_loop csock buf rs) rs))) rs"

declare server_tcp_loop.simps [simp del]

definition server_tcp :: "u16 \<Rightarrow> program" where
  "server_tcp port rs =
     sys (Socket SOCK_STREAM 0) (\<lambda>r rs. let ssock = ret r in
       if ssock < 0 then [Die 116]
       else sys (Bind ssock \<lparr>sin_port = htons port, sin_addr = htonl INADDR_ANY\<rparr>) (\<lambda>r rs.
         if ret r < 0 then [Die 128]
         else sys (Listen ssock 5) (\<lambda>r rs.
           if ret r < 0 then [Die 132]
           else sys (Accept ssock) (\<lambda>r rs.
             server_tcp_loop (ret r) (replicate TCP_MSG_SIZE 0) rs) rs) rs) rs) rs"

fun client_tcp_loop :: "int \<Rightarrow> byte list \<Rightarrow> program" where
  "client_tcp_loop sock buf rs =
     Sleep 1 # sys (Send sock buf) (\<lambda>r rs.
       if ret r < 0 then [Die 179] else client_tcp_loop sock buf rs) rs"

declare client_tcp_loop.simps [simp del]

definition client_tcp :: "u16 \<Rightarrow> byte list \<Rightarrow> program" where
  "client_tcp port buf rs =
     (let buf = strcpy_hello buf in
      sys (Socket SOCK_STREAM 0) (\<lambda>r rs. let sock = ret r in
        if sock < 0 then [Die 162]
        else sys (Connect sock \<lparr>sin_port = htons port, sin_addr = htonl INADDR_ANY\<rparr>) (\<lambda>r rs.
          if ret r < 0 then [Die 173] else client_tcp_loop sock buf rs) rs) rs)"

definition echo_main :: "byte list \<Rightarrow> program" where
  "echo_main buf = client_udp 8000 buf"

section \<open>Descriptors and bounds\<close>

lemmas fds_intros = fds_ok_sys fds_ok_poke fds_ok_print_s

lemma loops_fds:
  "sock \<in> fds \<Longrightarrow> fds_ok fds (server_udp_loop sock buf caddr rs)"
  "sock \<in> fds \<Longrightarrow> fds_ok fds (client_udp_loop sock buf caddr rs)"
  "sock \<in> fds \<Longrightarrow> fds_ok fds (server_tcp_loop sock buf rs)"
  "sock \<in> fds \<Longrightarrow> fds_ok fds (client_tcp_loop sock buf rs)"
proof (induction "length rs" arbitrary: buf caddr rs rule: less_induct)
  case less
  {
    case 1
    then show ?case using less(1) by (subst server_udp_loop.simps) (auto simp: Let_def intro!: fds_intros split: prod.splits)
  next
    case 2
    then show ?case using less(2) by (subst client_udp_loop.simps) (auto simp: Let_def intro!: fds_intros split: prod.splits)
  next
    case 3
    then show ?case using less(3) by (subst server_tcp_loop.simps) (auto simp: Let_def intro!: fds_intros split: prod.splits)
  next
    case 4
    then show ?case using less(4) by (subst client_tcp_loop.simps) (auto simp: Let_def intro!: fds_intros split: prod.splits)
  }
qed

text \<open>Datagrams and chunks that leave room for the terminator.\<close>

fun fits :: "reply \<Rightarrow> bool" where
  "fits (Data bs _) = (length bs < 256)"
| "fits _ = True"

lemma fits_recv:
  "recv_into 256 buf r = (n, buf') \<Longrightarrow> fits r \<Longrightarrow> length buf = 256 \<Longrightarrow> nat n < length buf' \<and> length buf' = 256"
  by (cases r) auto

lemma loops_defined:
  "list_all fits rs \<Longrightarrow> length buf = 256 \<Longrightarrow> defined (server_udp_loop sock buf caddr rs)"
  "list_all fits rs \<Longrightarrow> length buf = 256 \<Longrightarrow> defined (client_udp_loop sock buf caddr rs)"
  "list_all fits rs \<Longrightarrow> length buf = 256 \<Longrightarrow> defined (server_tcp_loop sock buf rs)"
proof (induction "length rs" arbitrary: buf caddr rs rule: less_induct)
  case less
  note intros = defined_sys defined_poke_print
  {
    case 1
    then show ?case using less(1)
      by (subst server_udp_loop.simps) (auto simp: Let_def intro!: intros dest!: fits_recv fits_recv [OF sym] split: prod.splits)
  next
    case 2
    then show ?case using less(2)
      by (subst client_udp_loop.simps) (auto simp: Let_def intro!: intros dest!: fits_recv fits_recv [OF sym] split: prod.splits)
  next
    case 3
    then show ?case using less(3)
      by (subst server_tcp_loop.simps) (auto simp: Let_def intro!: intros dest!: fits_recv fits_recv [OF sym] split: prod.splits)
  }
qed

section \<open>Echoing\<close>

text \<open>One round over UDP and over TCP.\<close>

lemma server_udp_round:
  assumes "length bs < 256" "length buf = 256" "0 \<le> n"
  defines "b \<equiv> bs @ 0 # drop (Suc (length bs)) buf"
  shows "server_udp_loop sock buf caddr (Data bs a # Ret n # rs) =
    Sys (Recv sock 256) (Data bs a) # Printf ''recieve from client - '' (cstr bs) #
    Sys (Sendto sock b a) (Ret n) # server_udp_loop sock b a rs"
  using assms
  by (subst server_udp_loop.simps) (simp add: Let_def poke_data print_s_def)

lemma server_tcp_round:
  assumes "length bs < 256" "length buf = 256" "0 \<le> n"
  defines "b \<equiv> bs @ 0 # drop (Suc (length bs)) buf"
  shows "server_tcp_loop sock buf (Data bs a # Ret n # rs) =
    Sys (Recv sock 256) (Data bs a) # Printf ''recieve from client - '' (cstr bs) #
    Sys (Send sock bs) (Ret n) # server_tcp_loop sock b rs"
  using assms
  by (subst server_tcp_loop.simps) (simp add: Let_def poke_data print_s_def)

text \<open>
  The replies of a kernel that delivers the datagrams \<open>dgs\<close>, or the chunks \<open>cs\<close>, and accepts
  every send.
\<close>

definition udp_replies :: "(byte list \<times> sockaddr) list \<Rightarrow> reply list" where
  "udp_replies dgs = concat (map (\<lambda>(bs, a). [Data bs a, Ret 256]) dgs)"

definition tcp_replies :: "sockaddr \<Rightarrow> byte list list \<Rightarrow> reply list" where
  "tcp_replies a cs = concat (map (\<lambda>bs. [Data bs a, Ret (int (length bs))]) cs)"

lemma replies_simps [simp]:
  "udp_replies [] = []" "udp_replies ((bs, a) # dgs) = Data bs a # Ret 256 # udp_replies dgs"
  "tcp_replies a [] = []" "tcp_replies a (bs # cs) = Data bs a # Ret (int (length bs)) # tcp_replies a cs"
  by (simp_all add: udp_replies_def tcp_replies_def)

text \<open>What stands behind the terminator of each message: what stood there before.\<close>

fun leftovers :: "byte list \<Rightarrow> byte list list \<Rightarrow> byte list list" where
  "leftovers buf [] = []"
| "leftovers buf (bs # bss) =
     (let b = bs @ 0 # drop (Suc (length bs)) buf in b # leftovers b bss)"

lemma leftovers_props:
  assumes "\<forall>bs \<in> set bss. length bs < n" "length buf = n"
  shows "map cstr (leftovers buf bss) = map cstr bss \<and> list_all (\<lambda>b. length b = n) (leftovers buf bss)"
  using assms
proof (induction bss arbitrary: buf)
  case (Cons bs bss)
  let ?b = "bs @ 0 # drop (Suc (length bs)) buf"
  have "length bs < n" using Cons.prems(1) by simp
  with Cons.prems(2) have len: "length ?b = n" by simp
  have "map cstr (leftovers ?b bss) = map cstr bss \<and> list_all (\<lambda>b. length b = n) (leftovers ?b bss)"
    by (rule Cons.IH [OF _ len]) (use Cons.prems(1) in simp)
  with len show ?case by (simp add: Let_def)
qed simp

lemma server_udp_loop_echoes:
  assumes "\<forall>(bs, a) \<in> set dgs. length bs < 256" "length buf = 256" "t = server_udp_loop sock buf caddr (udp_replies dgs)"
  shows "sends t = zip (leftovers buf (map fst dgs)) (map (Some \<circ> snd) dgs)
    \<and> prints t = map (cstr \<circ> fst) dgs"
  using assms
proof (induction dgs arbitrary: buf caddr t)
  case Nil
  then show ?case by (simp add: server_udp_loop.simps [of _ _ _ "[]"])
next
  case (Cons d dgs)
  obtain bs a where d: "d = (bs, a)" by fastforce
  let ?b = "bs @ 0 # drop (Suc (length bs)) buf"
  have bs: "length bs < 256" "length ?b = 256" using Cons.prems d by auto
  have "sends (server_udp_loop sock ?b a (udp_replies dgs)) =
      zip (leftovers ?b (map fst dgs)) (map (Some \<circ> snd) dgs)
    \<and> prints (server_udp_loop sock ?b a (udp_replies dgs)) = map (cstr \<circ> fst) dgs"
    by (rule Cons.IH [OF _ bs(2) refl]) (use Cons.prems in auto)
  moreover have "t = Sys (Recv sock 256) (Data bs a) # Printf ''recieve from client - '' (cstr bs) #
      Sys (Sendto sock ?b a) (Ret 256) # server_udp_loop sock ?b a (udp_replies dgs)"
    using server_udp_round [OF bs(1) Cons.prems(2), of 256] Cons.prems(3) d by simp
  ultimately show ?case by (simp add: d Let_def comp_def)
qed

lemma server_tcp_loop_echoes:
  assumes "\<forall>bs \<in> set cs. length bs < 256" "length buf = 256" "t = server_tcp_loop sock buf (tcp_replies a cs)"
  shows "map fst (sends t) = cs \<and> prints t = map cstr cs \<and> last t = Pending (Recv sock 256)"
  using assms
proof (induction cs arbitrary: buf t)
  case Nil
  then show ?case by (simp add: server_tcp_loop.simps [of _ _ "[]"])
next
  case (Cons bs cs)
  let ?b = "bs @ 0 # drop (Suc (length bs)) buf"
  have "length ?b = 256" using Cons.prems by auto
  then have "server_tcp_loop sock ?b (tcp_replies a cs) \<noteq> []"
    by (subst server_tcp_loop.simps) (simp add: sys_def split: list.splits)
  then show ?case using Cons.IH [of ?b] Cons.prems \<open>length ?b = 256\<close>
    by (simp add: server_tcp_round)
qed

section \<open>Properties\<close>

text \<open>
  C33. The UDP server answers: when the kernel delivers datagrams of at most 255 bytes, it prints
  and sends back each of them, in order and to its sender. The answer is always 256 bytes long:
  behind the string and its terminator stands what earlier messages left in the buffer.
\<close>

theorem udp_echo:
  assumes "\<forall>(bs, a) \<in> set dgs. length bs < 256"
  shows "let t = server_udp port a0 (Ret 3 # Ret 0 # udp_replies dgs) in
    map snd (sends t) = map (Some \<circ> snd) dgs
    \<and> map (cstr \<circ> fst) (sends t) = map (cstr \<circ> fst) dgs \<and> prints t = map (cstr \<circ> fst) dgs
    \<and> map fst (sends t) = leftovers (replicate 256 0) (map fst dgs)
    \<and> list_all (\<lambda>m. length m = 256) (map fst (sends t))"
proof -
  let ?l = "leftovers (replicate 256 0) (map fst dgs)"
  let ?t = "server_udp port a0 (Ret 3 # Ret 0 # udp_replies dgs)"
  have s: "sends ?t = zip ?l (map (Some \<circ> snd) dgs)" "prints ?t = map (cstr \<circ> fst) dgs"
    using server_udp_loop_echoes [OF assms _ refl, of "replicate 256 0" 3 a0]
    by (simp_all add: server_udp_def)
  have l: "map cstr ?l = map cstr (map fst dgs)" "list_all (\<lambda>b. length b = 256) ?l"
    using leftovers_props [of "map fst dgs" 256 "replicate 256 0"] assms by (simp_all add: case_prod_beta)
  then have "length ?l = length dgs" by (metis length_map)
  with s l show ?thesis by (simp add: Let_def flip: map_map)
qed

theorem udp_echo_witness:
  "map fst (sends (server_udp 8001 \<lparr>sin_port = 0, sin_addr = 0\<rparr> (Ret 3 # Ret 0 # udp_replies
      [([115, 101, 99, 114, 101, 116], \<lparr>sin_port = 1, sin_addr = 2\<rparr>), ([104, 105], \<lparr>sin_port = 1, sin_addr = 3\<rparr>)])))
    = [[115, 101, 99, 114, 101, 116] @ replicate 250 0, [104, 105, 0, 114, 101, 116] @ replicate 250 0]"
  using udp_echo [of "[([115, 101, 99, 114, 101, 116], \<lparr>sin_port = 1, sin_addr = 2\<rparr>), ([104, 105], \<lparr>sin_port = 1, sin_addr = 3\<rparr>)]"
      8001 "\<lparr>sin_port = 0, sin_addr = 0\<rparr>"]
  by (simp add: Let_def numeral_eq_Suc)

text \<open>
  C34. The TCP server echoes the stream: for chunks of at most 255 bytes the bytes sent are the bytes
  received. An empty receive, the end of the stream, is echoed like any other, so that the
  server then goes on receiving and printing empty lines and never closes the connection.
\<close>

theorem tcp_echo:
  assumes "\<forall>bs \<in> set cs. length bs < 256"
  shows "let t = server_tcp port (Ret 3 # Ret 0 # Ret 0 # Ret 4 # tcp_replies a (cs @ replicate k [])) in
    concat (map fst (sends t)) = concat cs \<and> prints t = map cstr cs @ replicate k []
    \<and> length (sends t) = length cs + k \<and> last t = Pending (Recv 4 256)"
proof -
  let ?u = "server_tcp_loop 4 (replicate 256 0) (tcp_replies a (cs @ replicate k []))"
  have u: "map fst (sends ?u) = cs @ replicate k [] \<and> prints ?u = map cstr (cs @ replicate k [])
      \<and> last ?u = Pending (Recv 4 256)"
    by (rule server_tcp_loop_echoes [OF _ _ refl]) (use assms in auto)
  have "?u \<noteq> []" by (subst server_tcp_loop.simps) (simp add: sys_def split: list.splits)
  moreover have "length (sends ?u) = length cs + k" using arg_cong [OF conjunct1 [OF u], of length] by simp
  ultimately show ?thesis using u by (simp add: Let_def server_tcp_def)
qed

theorem tcp_echo_witness:
  "concat (map fst (sends (server_tcp 8002 (Ret 3 # Ret 0 # Ret 0 # Ret 4 #
      tcp_replies \<lparr>sin_port = 0, sin_addr = 0\<rparr> ([[104], [105, 10]] @ replicate 2 []))))) = [104, 105, 10]"
  using tcp_echo [of "[[104], [105, 10]]" 8002 "\<lparr>sin_port = 0, sin_addr = 0\<rparr>" 2] by (simp add: Let_def)

text \<open>
  C35. The bounds of the echo programs: while every datagram or chunk has at most 255 bytes, no server
  and no client leaves its buffer, whatever else the kernel replies; one of 256 bytes, which
  the receive admits, makes each of them write its terminator behind the buffer.
\<close>

theorem echo_bounds:
  assumes "list_all fits rs" "length stack = 256" "length big = 256"
  shows "defined (server_udp port a rs) \<and> defined (server_tcp port rs)
    \<and> defined (client_udp port stack rs) \<and> defined (client_tcp port stack rs)
    \<and> \<not> defined (server_udp port a [Ret 3, Ret 0, Data big b])
    \<and> \<not> defined (server_tcp port [Ret 3, Ret 0, Ret 0, Ret 4, Data big b])
    \<and> \<not> defined (client_udp port stack [Ret 3, Ret 256, Data big b])"
proof -
  have hello: "length (strcpy_hello stack) = 256"
    using assms(2) by (simp add: strcpy_hello_def hello_def)
  have "defined (client_tcp_loop sock buf ss)" for sock buf ss
  proof (induction "length ss" arbitrary: ss rule: less_induct)
    case less
    then show ?case by (subst client_tcp_loop.simps) (auto intro!: defined_sys)
  qed
  then have "defined (client_tcp port stack rs)"
    by (auto simp: client_tcp_def Let_def intro!: defined_sys)
  moreover have "defined (server_udp port a rs)" "defined (server_tcp port rs)" "defined (client_udp port stack rs)"
    using assms(1) hello unfolding server_udp_def server_tcp_def client_udp_def Let_def
    by (auto intro!: defined_sys defined_if loops_defined)
  ultimately show ?thesis using assms(2,3)
    by (simp add: server_udp_def server_tcp_def client_udp_def server_udp_loop.simps client_udp_loop.simps
        server_tcp_loop.simps strcpy_hello_def hello_def)
qed

theorem echo_bounds_witness:
  "defined (server_udp 8001 \<lparr>sin_port = 0, sin_addr = 0\<rparr> [Ret 3, Ret 0, Data [1] \<lparr>sin_port = 0, sin_addr = 0\<rparr>])
    \<and> \<not> defined (server_tcp 8002 [Ret 3, Ret 0, Ret 0, Ret 4, Data (replicate 256 65) \<lparr>sin_port = 0, sin_addr = 0\<rparr>])"
  using echo_bounds [of "[Ret 3, Ret 0, Data [1] \<lparr>sin_port = 0, sin_addr = 0\<rparr>]" "replicate 256 0" "replicate 256 65"
      8001 "\<lparr>sin_port = 0, sin_addr = 0\<rparr>"]
    echo_bounds [of "[]" "replicate 256 0" "replicate 256 65" 8002]
  by simp

text \<open>
  Descriptors: whatever the kernel replies, the UDP server and both clients make their calls only
  on a socket that was opened, after which every failure but that of a sleep ends them. The TCP
  server does not look at the result of its accept, so it receives on the descriptor -1.
\<close>

lemma echo_descriptors:
  "fds_ok {} (server_udp port a rs) \<and> fds_ok {} (client_udp port stack rs) \<and> fds_ok {} (client_tcp port stack rs)
    \<and> \<not> fds_ok {} (server_tcp port [Ret 3, Ret 0, Ret 0, Ret (- 1)])"
proof -
  have "fds_ok {} (server_udp port a rs)" "fds_ok {} (client_udp port stack rs)" "fds_ok {} (client_tcp port stack rs)"
    unfolding server_udp_def client_udp_def client_tcp_def Let_def
    by (auto intro!: fds_intros loops_fds)
  then show ?thesis by (simp add: server_tcp_def server_tcp_loop.simps)
qed

end
