(* ===== verification/CastPrograms.thy ===== *)
theory CastPrograms
  imports Syscalls
begin

text \<open>
  The SCTP server and client of sctp/main.c and the broadcast and multicast programs of
  broadcast\_multicast/main.c. Both files wrap the calls in functions of their own, which end the
  program when a call fails. Their \<open>socket_setsockopt\<close> is given the address of the option and
  passes the address of its own parameter on, so the kernel reads a pointer; \<open>opt\<close> and \<open>mreq\<close>
  are the addresses of those objects. \<^verbatim>\<open>inet_addr\<close> is the library's. \<open>buf\<close> is a global of
  256 bytes.
\<close>

abbreviation (input) IPPROTO_SCTP :: int where "IPPROTO_SCTP \<equiv> 132"
abbreviation (input) SCTP_INITMSG :: int where "SCTP_INITMSG \<equiv> 2"
abbreviation (input) SOL_SOCKET :: int where "SOL_SOCKET \<equiv> 1"
abbreviation (input) SO_REUSEADDR :: int where "SO_REUSEADDR \<equiv> 2"
abbreviation (input) SO_BROADCAST :: int where "SO_BROADCAST \<equiv> 6"
abbreviation (input) IP_ADD_MEMBERSHIP :: int where "IP_ADD_MEMBERSHIP \<equiv> 35"

section \<open>sctp/main.c\<close>

definition sctp_socket_create :: "int \<Rightarrow> int \<Rightarrow> (int \<Rightarrow> program) \<Rightarrow> program" where
  "sctp_socket_create type protocol k =
     sys (Socket type protocol) (\<lambda>r. if ret r < 0 then (\<lambda>_. [Die 37]) else k (ret r))"

definition sctp_socket_bind :: "int \<Rightarrow> sockaddr \<Rightarrow> program \<Rightarrow> program" where
  "sctp_socket_bind sock addr = checked (Bind sock addr) 48"

definition sctp_socket_addrl :: "u32 \<Rightarrow> u16 \<Rightarrow> sockaddr" where
  "sctp_socket_addrl address port = \<lparr>sin_port = htons port, sin_addr = htonl address\<rparr>"

definition sctp_socket_addrc :: "(string \<Rightarrow> u32) \<Rightarrow> string \<Rightarrow> u16 \<Rightarrow> sockaddr" where
  "sctp_socket_addrc inet_addr address port = \<lparr>sin_port = htons port, sin_addr = inet_addr address\<rparr>"

definition sctp_socket_setsockopt :: "int \<Rightarrow> int \<Rightarrow> int \<Rightarrow> 64 word \<Rightarrow> program \<Rightarrow> program" where
  "sctp_socket_setsockopt sock level optname optval =
     checked (Setsockopt sock level optname (ptr_bytes optval)) 69"

definition sctp_socket_accept :: "int \<Rightarrow> (int \<Rightarrow> program) \<Rightarrow> program" where
  "sctp_socket_accept sock k =
     sys (Accept sock) (\<lambda>r. if ret r < 0 then (\<lambda>_. [Die 79]) else k (ret r))"

definition sctp_socket_listen :: "int \<Rightarrow> program \<Rightarrow> program" where
  "sctp_socket_listen sock = checked (Listen sock 5) 88"

definition sctp_socket_close :: "int \<Rightarrow> program \<Rightarrow> program" where
  "sctp_socket_close sock = checked (Close sock) 95"

fun sctp_server_loop :: "int \<Rightarrow> byte list \<Rightarrow> program \<Rightarrow> program" where
  "sctp_server_loop clientSock buf k rs =
     sys (Recv clientSock 256) (\<lambda>r rs.
       let (nbytes, buf) = recv_into 256 buf r in
       if nbytes < 0 then [Die 138]
       else if nbytes = 0 then Puts ''client disconnect'' # sctp_socket_close clientSock k rs
       else poke buf nbytes 0 (\<lambda>buf. print_s ''sctp recieve '' buf
         (sctp_server_loop clientSock buf k rs))) rs"

declare sctp_server_loop.simps [simp del]

definition sctp_server :: "64 word \<Rightarrow> u16 \<Rightarrow> program" where
  "sctp_server opt port =
     sctp_socket_create SOCK_STREAM IPPROTO_SCTP (\<lambda>serverSock.
       sctp_socket_bind serverSock (sctp_socket_addrl INADDR_ANY port)
       (sctp_socket_setsockopt serverSock IPPROTO_SCTP SCTP_INITMSG opt
       (sctp_socket_listen serverSock
       (sys (Accept serverSock) (\<lambda>r rs. let clientSock = ret r in
          if clientSock < 0 then [Die 131]
          else Puts ''new client'' # sctp_server_loop clientSock (replicate 256 0)
            (sctp_socket_close serverSock (\<lambda>_. [])) rs)))))"

fun sctp_client_loop :: "int \<Rightarrow> byte list \<Rightarrow> program" where
  "sctp_client_loop serverSock buf rs =
     Sleep 1 # sys (Send serverSock buf) (\<lambda>r rs.
       if ret r < 0 then [Die 177] else sctp_client_loop serverSock buf rs) rs"

declare sctp_client_loop.simps [simp del]

definition hello_line :: "byte list" where
  "hello_line = [104, 101, 108, 108, 111, 32, 119, 111, 114, 108, 100, 10]"

definition sctp_client :: "(string \<Rightarrow> u32) \<Rightarrow> u16 \<Rightarrow> program" where
  "sctp_client inet_addr port =
     (let buf = hello_line @ [0] @ drop 13 (replicate 256 0) in
      sctp_socket_create SOCK_STREAM IPPROTO_SCTP (\<lambda>serverSock.
        checked (Connect serverSock (sctp_socket_addrc inet_addr ''127.0.0.1'' port)) 170
          (sctp_client_loop serverSock buf)))"

text \<open>\<open>main\<close> runs the client; the server is commented out.\<close>

definition sctp_main :: "(string \<Rightarrow> u32) \<Rightarrow> program" where
  "sctp_main inet_addr = sctp_client inet_addr 8000"

section \<open>broadcast\_multicast/main.c\<close>

definition bc_socket_create :: "int \<Rightarrow> (int \<Rightarrow> program) \<Rightarrow> program" where
  "bc_socket_create type k =
     sys (Socket type 0) (\<lambda>r. if ret r < 0 then (\<lambda>_. [Die 36]) else k (ret r))"

definition bc_socket_bind :: "int \<Rightarrow> sockaddr \<Rightarrow> program \<Rightarrow> program" where
  "bc_socket_bind sock addr = checked (Bind sock addr) 47"

definition bc_socket_addrl :: "u32 \<Rightarrow> u16 \<Rightarrow> sockaddr" where
  "bc_socket_addrl address port = \<lparr>sin_port = htons port, sin_addr = htonl address\<rparr>"

definition bc_socket_addrc :: "(string \<Rightarrow> u32) \<Rightarrow> string \<Rightarrow> u16 \<Rightarrow> sockaddr" where
  "bc_socket_addrc inet_addr address port = \<lparr>sin_port = htons port, sin_addr = inet_addr address\<rparr>"

definition bc_socket_setsockopt :: "int \<Rightarrow> int \<Rightarrow> int \<Rightarrow> 64 word \<Rightarrow> program \<Rightarrow> program" where
  "bc_socket_setsockopt sock level optname optval =
     checked (Setsockopt sock level optname (ptr_bytes optval)) 68"

definition bc_socket_close :: "int \<Rightarrow> program \<Rightarrow> program" where
  "bc_socket_close sock = checked (Close sock) 75"

definition bc_socket_accept :: "int \<Rightarrow> (int \<Rightarrow> program) \<Rightarrow> program" where
  "bc_socket_accept sock k =
     sys (Accept sock) (\<lambda>r. if ret r < 0 then (\<lambda>_. [Die 85]) else k (ret r))"

definition bc_socket_listen :: "int \<Rightarrow> program \<Rightarrow> program" where
  "bc_socket_listen sock = checked (Listen sock 5) 94"

text \<open>The loops: the result of the send, or of the receive, is not looked at.\<close>

fun cast_server_loop :: "string \<Rightarrow> int \<Rightarrow> byte list \<Rightarrow> sockaddr \<Rightarrow> program" where
  "cast_server_loop text sock buf addr rs =
     Sleep 1 # sys (Sendto sock buf addr) (\<lambda>r rs.
       print_s text buf (cast_server_loop text sock buf addr rs)) rs"

fun cast_client_loop :: "string \<Rightarrow> int \<Rightarrow> byte list \<Rightarrow> program" where
  "cast_client_loop text sock buf rs =
     sys (Recv sock 256) (\<lambda>r rs. let (_, buf) = recv_into 256 buf r in
       print_s text buf (cast_client_loop text sock buf rs)) rs"

declare cast_server_loop.simps [simp del]
declare cast_client_loop.simps [simp del]

definition cast_hello :: "byte list \<Rightarrow> byte list" where
  "cast_hello buf = [104, 101, 108, 108, 111, 32, 119, 111, 114, 108, 100, 33, 0] @ drop 13 buf"

definition broadcast_server :: "64 word \<Rightarrow> u16 \<Rightarrow> byte list \<Rightarrow> program" where
  "broadcast_server opt port buf =
     (let buf = cast_hello buf; addr = bc_socket_addrl INADDR_BROADCAST port in
      bc_socket_create SOCK_DGRAM (\<lambda>sock.
        bc_socket_setsockopt sock SOL_SOCKET SO_BROADCAST opt
        (bc_socket_bind sock addr
        (cast_server_loop ''broadcast send: '' sock buf addr))))"

definition broadcast_client :: "64 word \<Rightarrow> u16 \<Rightarrow> byte list \<Rightarrow> program" where
  "broadcast_client opt port buf =
     bc_socket_create SOCK_DGRAM (\<lambda>sock.
       bc_socket_setsockopt sock SOL_SOCKET SO_BROADCAST opt
       (bc_socket_bind sock (bc_socket_addrl INADDR_BROADCAST port)
       (cast_client_loop ''broadcast recvfrom: '' sock buf)))"

definition multicast_server :: "(string \<Rightarrow> u32) \<Rightarrow> string \<Rightarrow> u16 \<Rightarrow> byte list \<Rightarrow> program" where
  "multicast_server inet_addr addrgroup port buf =
     (let buf = cast_hello buf in
      bc_socket_create SOCK_DGRAM (\<lambda>sock.
        cast_server_loop ''multicast sendto: '' sock buf (bc_socket_addrc inet_addr addrgroup port)))"

text \<open>The group is stored into the object at \<open>mreq\<close>, whose content nobody reads.\<close>

definition multicast_client :: "64 word \<Rightarrow> 64 word \<Rightarrow> (string \<Rightarrow> u32) \<Rightarrow> string \<Rightarrow> u16 \<Rightarrow> byte list \<Rightarrow> program" where
  "multicast_client opt mreq inet_addr addrgroup port buf =
     (let buf = cast_hello buf; addr = bc_socket_addrl INADDR_ANY port;
          imr_multiaddr = inet_addr addrgroup; imr_interface = htonl INADDR_ANY in
      bc_socket_create SOCK_DGRAM (\<lambda>sock.
        bc_socket_setsockopt sock SOL_SOCKET SO_REUSEADDR opt
        (bc_socket_setsockopt sock 0 IP_ADD_MEMBERSHIP mreq
        (cast_client_loop ''multicast recvfrom: '' sock buf))))"

definition cast_main :: "64 word \<Rightarrow> program" where
  "cast_main opt = broadcast_client opt 8001 (replicate 256 0)"

lemmas sctp_defs = sctp_socket_create_def sctp_socket_bind_def sctp_socket_addrl_def sctp_socket_addrc_def
  sctp_socket_setsockopt_def sctp_socket_listen_def sctp_socket_close_def
lemmas bc_defs = bc_socket_create_def bc_socket_bind_def bc_socket_addrl_def bc_socket_addrc_def
  bc_socket_setsockopt_def

section \<open>The loops\<close>

lemma cast_loops_quiet:
  "options (cast_server_loop text sock buf addr rs) = [] \<and> binds (cast_server_loop text sock buf addr rs) = []"
  "options (cast_client_loop text sock buf rs) = [] \<and> binds (cast_client_loop text sock buf rs) = []"
proof (induction "length rs" arbitrary: buf rs rule: less_induct)
  case less
  {
    case 1
    then show ?case using less(1) unfolding cast_server_loop.simps [of "text" sock buf addr rs]
      by (simp add: sys_def print_s_def split: list.splits)
  next
    case 2
    then show ?case using less(2) unfolding cast_client_loop.simps [of "text" sock buf rs]
      by (simp add: sys_def print_s_def split: list.splits prod.splits)
  }
qed

lemma cast_loops_fds:
  "sock \<in> fds \<Longrightarrow> fds_ok fds (cast_server_loop text sock buf addr rs)"
  "sock \<in> fds \<Longrightarrow> fds_ok fds (cast_client_loop text sock buf rs)"
  "sock \<in> fds \<Longrightarrow> fds_ok fds (sctp_client_loop sock buf rs)"
proof (induction "length rs" arbitrary: buf rs rule: less_induct)
  case less
  note intros = fds_ok_sys fds_ok_poke fds_ok_print_s
  {
    case 1
    then show ?case using less(1) by (subst cast_server_loop.simps) (auto intro!: intros)
  next
    case 2
    then show ?case using less(2) by (subst cast_client_loop.simps) (auto intro!: intros split: prod.splits)
  next
    case 3
    then show ?case using less(3) by (subst sctp_client_loop.simps) (auto intro!: intros)
  }
qed

lemma sctp_server_loop_fds:
  "sock \<in> fds \<Longrightarrow> (\<And>ss. fds_ok (fds - {sock}) (k ss)) \<Longrightarrow> fds_ok fds (sctp_server_loop sock buf k rs)"
proof (induction "length rs" arbitrary: buf rs rule: less_induct)
  case less
  show ?case
    by (subst sctp_server_loop.simps)
      (use less in \<open>auto simp: Let_def sctp_socket_close_def intro!: fds_ok_sys fds_ok_checked fds_ok_poke fds_ok_print_s split: prod.splits\<close>)
qed

lemma cast_client_blocks: "cast_client_loop text sock buf [] = [Pending (Recv sock 256)]"
  by (subst cast_client_loop.simps) simp

lemma cast_client_round:
  "length bs \<le> 256 \<Longrightarrow> cast_client_loop text sock buf (Data bs a # rs) =
    Sys (Recv sock 256) (Data bs a) # print_s text (bs @ drop (length bs) buf)
      (cast_client_loop text sock (bs @ drop (length bs) buf) rs)"
  by (subst cast_client_loop.simps) simp

text \<open>Messages that leave room for the terminator, and then the end of the association.\<close>

lemma sctp_server_loop_run:
  assumes "list_all (\<lambda>bs. 0 < length bs \<and> length bs < 256) cs" "length buf = 256"
  shows "\<exists>t. sctp_server_loop sock buf k (map (\<lambda>bs. Data bs a) cs @ Data [] a # Ret 0 # rs) =
      t @ Puts ''client disconnect'' # Sys (Close sock) (Ret 0) # k rs
    \<and> prints t = map cstr cs \<and> (\<forall>fds u. fds_left fds (t @ u) = fds_left fds u)
    \<and> (\<forall>u. prints (t @ u) = prints t @ prints u) \<and> (\<forall>c. Pending c \<notin> set t)"
  using assms
proof (induction cs arbitrary: buf)
  case Nil
  have "sctp_server_loop sock buf k (Data [] a # Ret 0 # rs) =
      Sys (Recv sock 256) (Data [] a) # Puts ''client disconnect'' # Sys (Close sock) (Ret 0) # k rs"
    by (subst sctp_server_loop.simps) (simp add: sctp_socket_close_def)
  then show ?case by (auto intro!: exI [of _ "[Sys (Recv sock 256) (Data [] a)]"])
next
  case (Cons bs cs)
  let ?b = "bs @ 0 # drop (Suc (length bs)) buf"
  have bs: "0 < length bs" "length bs < 256" "length ?b = 256" using Cons.prems by auto
  obtain t where t: "sctp_server_loop sock ?b k (map (\<lambda>bs. Data bs a) cs @ Data [] a # Ret 0 # rs) =
      t @ Puts ''client disconnect'' # Sys (Close sock) (Ret 0) # k rs"
    "prints t = map cstr cs" "\<forall>fds u. fds_left fds (t @ u) = fds_left fds u"
    "\<forall>u. prints (t @ u) = prints t @ prints u" "\<forall>c. Pending c \<notin> set t"
    using Cons.IH [OF _ bs(3)] Cons.prems(1) by auto
  have "sctp_server_loop sock buf k (Data bs a # (map (\<lambda>bs. Data bs a) cs @ Data [] a # Ret 0 # rs)) =
      Sys (Recv sock 256) (Data bs a) # Printf ''sctp recieve '' (cstr bs) #
      sctp_server_loop sock ?b k (map (\<lambda>bs. Data bs a) cs @ Data [] a # Ret 0 # rs)"
    using bs(1,2) Cons.prems(2)
    by (subst sctp_server_loop.simps) (simp add: poke_data print_s_def)
  with t show ?case
    by (intro exI [of _ "Sys (Recv sock 256) (Data bs a) # Printf ''sctp recieve '' (cstr bs) # t"]) simp
qed

section \<open>Properties\<close>

text \<open>
  C36. The SCTP server's descriptors: whatever the kernel replies, every call is made on a descriptor
  that is open. In a run in which messages of at most 255 bytes arrive and the association then
  ends, it prints each message and leaves no descriptor open, both sockets closed once.
\<close>

theorem sctp_server_closes:
  assumes "list_all (\<lambda>bs. 0 < length bs \<and> length bs < 256) cs"
  shows "fds_ok {} (sctp_server opt port rs)
    \<and> (let t = sctp_server opt port ([Ret 3, Ret 0, Ret 0, Ret 0, Ret 4] @ map (\<lambda>bs. Data bs a) cs @ [Data [] a, Ret 0, Ret 0])
       in prints t = map cstr cs \<and> fds_left {} t = {} \<and> Pending (Close 3) \<notin> set t)"
proof
  show "fds_ok {} (sctp_server opt port rs)"
    by (auto simp: sctp_server_def sctp_defs Let_def intro!: fds_ok_sys fds_ok_checked sctp_server_loop_fds)
  obtain t where t: "sctp_server_loop 4 (replicate 256 0) (sctp_socket_close 3 (\<lambda>_. []))
      (map (\<lambda>bs. Data bs a) cs @ Data [] a # Ret 0 # [Ret 0]) =
      t @ Puts ''client disconnect'' # Sys (Close 4) (Ret 0) # sctp_socket_close 3 (\<lambda>_. []) [Ret 0]"
    "prints t = map cstr cs" "\<forall>fds u. fds_left fds (t @ u) = fds_left fds u"
    "\<forall>u. prints (t @ u) = prints t @ prints u" "Pending (Close 3) \<notin> set t"
    using sctp_server_loop_run [OF assms, of "replicate 256 0" 4 "sctp_socket_close 3 (\<lambda>_. [])" a "[Ret 0]"]
    by auto
  show "let t = sctp_server opt port ([Ret 3, Ret 0, Ret 0, Ret 0, Ret 4] @ map (\<lambda>bs. Data bs a) cs @ [Data [] a, Ret 0, Ret 0])
      in prints t = map cstr cs \<and> fds_left {} t = {} \<and> Pending (Close 3) \<notin> set t"
    using t by (simp add: sctp_server_def sctp_defs Let_def)
qed

theorem sctp_server_closes_witness:
  "let t = sctp_server 7 8000 ([Ret 3, Ret 0, Ret 0, Ret 0, Ret 4]
      @ map (\<lambda>bs. Data bs \<lparr>sin_port = 0, sin_addr = 0\<rparr>) [[104, 105]] @ [Data [] \<lparr>sin_port = 0, sin_addr = 0\<rparr>, Ret 0, Ret 0])
   in prints t = [[104, 105]] \<and> fds_left {} t = {}"
  using sctp_server_closes [of "[[104, 105]]" 7 8000 "[]" "\<lparr>sin_port = 0, sin_addr = 0\<rparr>"]
  by (simp add: Let_def)

text \<open>
  No option ever reaches the kernel: whatever it replies, the option values that the programs
  pass are the addresses of their option objects, never the contents. So the multicast client
  asks for the same group whatever group it was given; and it never binds a socket to its port.
\<close>

lemma options_are_pointers:
  "(\<exists>k. options (multicast_client opt mreq inet_addr addrgroup port buf rs) = take k [ptr_bytes opt, ptr_bytes mreq])
    \<and> multicast_client opt mreq inet_addr addrgroup port buf rs = multicast_client opt mreq inet_addr' addrgroup' port' buf rs
    \<and> binds (multicast_client opt mreq inet_addr addrgroup port buf rs) = []
    \<and> (\<exists>k. options (broadcast_client opt port buf rs) = take k [ptr_bytes opt])
    \<and> (\<exists>k. options (broadcast_server opt port buf rs) = take k [ptr_bytes opt])"
proof (intro conjI)
  show "\<exists>k. options (multicast_client opt mreq inet_addr addrgroup port buf rs) = take k [ptr_bytes opt, ptr_bytes mreq]"
    by (auto simp: multicast_client_def bc_defs Let_def sys_def checked_def cast_loops_quiet split: list.splits
        intro: exI [of _ 0] exI [of _ "Suc 0"] exI [of _ 2])
  show "multicast_client opt mreq inet_addr addrgroup port buf rs = multicast_client opt mreq inet_addr' addrgroup' port' buf rs"
    by (simp add: multicast_client_def)
  show "binds (multicast_client opt mreq inet_addr addrgroup port buf rs) = []"
    by (simp add: multicast_client_def bc_defs Let_def sys_def checked_def cast_loops_quiet split: list.splits)
  show "\<exists>k. options (broadcast_client opt port buf rs) = take k [ptr_bytes opt]"
    by (auto simp: broadcast_client_def bc_defs Let_def sys_def checked_def cast_loops_quiet split: list.splits
        intro: exI [of _ 0] exI [of _ "Suc 0"])
  show "\<exists>k. options (broadcast_server opt port buf rs) = take k [ptr_bytes opt]"
    by (auto simp: broadcast_server_def bc_defs Let_def sys_def checked_def cast_loops_quiet split: list.splits
        intro: exI [of _ 0] exI [of _ "Suc 0"])
qed

text \<open>
  What the broadcast client prints: it never terminates what it receives. A datagram of at most
  256 bytes without a zero byte is printed with the tail of the buffer behind it, so a shorter
  datagram shows the end of a longer one before; a full one runs out of the buffer.
\<close>

lemma broadcast_client_prints:
  assumes "length buf = 256" "0 \<notin> set bs" "length bs \<le> 256"
  shows "broadcast_client opt port buf [Ret 3, Ret 0, Ret 0, Data bs a] =
    [Sys (Socket SOCK_DGRAM 0) (Ret 3), Sys (Setsockopt 3 SOL_SOCKET SO_BROADCAST (ptr_bytes opt)) (Ret 0),
     Sys (Bind 3 \<lparr>sin_port = htons port, sin_addr = INADDR_BROADCAST\<rparr>) (Ret 0), Sys (Recv 3 256) (Data bs a)]
    @ (if terminated (drop (length bs) buf)
       then [Printf ''broadcast recvfrom: '' (bs @ cstr (drop (length bs) buf)), Pending (Recv 3 256)]
       else [Undefined])"
proof -
  have "cstr (bs @ drop (length bs) buf) = bs @ cstr (drop (length bs) buf)"
    using assms(2) by (rule cstr_append)
  moreover have "htonl INADDR_BROADCAST = INADDR_BROADCAST" by (simp add: bswap32_def)
  ultimately show ?thesis using assms
    by (simp add: broadcast_client_def bc_defs cast_client_round cast_client_blocks print_s_def)
qed

lemma broadcast_client_prints_witness:
  "prints (broadcast_client 7 8001 ([104, 101, 108, 108, 111] @ replicate 251 0) [Ret 3, Ret 0, Ret 0, Data [98, 121] \<lparr>sin_port = 0, sin_addr = 0\<rparr>])
    = [[98, 121, 108, 108, 111]]"
  using broadcast_client_prints [of "[104, 101, 108, 108, 111] @ replicate 251 0" "[98, 121]" 7 8001 "\<lparr>sin_port = 0, sin_addr = 0\<rparr>"]
  by simp

text \<open>The other programs keep the discipline of descriptors too.\<close>

lemma cast_descriptors:
  "fds_ok {} (sctp_client inet_addr port rs)" "fds_ok {} (broadcast_server opt port buf rs)"
  "fds_ok {} (broadcast_client opt port buf rs)" "fds_ok {} (multicast_server inet_addr addrgroup port buf rs)"
  "fds_ok {} (multicast_client opt mreq inet_addr addrgroup port buf rs)"
  by (auto simp: sctp_client_def sctp_defs broadcast_server_def broadcast_client_def multicast_server_def
      multicast_client_def bc_defs Let_def intro!: fds_ok_sys fds_ok_checked cast_loops_fds)

end
