(* ===== verification/Sniffer.thy ===== *)
theory Sniffer
  imports Checksum
begin

text \<open>
  sniffer/main.c: the callback that prints a captured frame, the list of devices and \<open>main\<close>.
  \<open>packet\<close> holds the captured bytes; a read behind them is undefined. \<open>sum0\<close> is the value that
  the uninitialised accumulator of \<open>check_sum\<close> happens to have. The capture library is a
  parameter: what its calls return.
\<close>

section \<open>The callback\<close>

datatype sniff_out =
    Ethernet string
  | Source_Mac "byte list"
  | Destination_Mac "byte list"
  | Wrong_Size nat
  | Wrong_Checksum
  | Field string nat
  | Protocol string

definition eth_name :: "u16 \<Rightarrow> string" where
  "eth_name t = (if t = 0x0806 then ''ARP'' else if t = 0x0800 then ''IP''
     else if t = 0x8035 then ''RARP'' else ''unknown'')"

definition protocol_name :: "byte \<Rightarrow> string" where
  "protocol_name p = (if p = 6 then ''TCP'' else if p = 17 then ''UDP'' else if p = 1 then ''ICMP''
     else if p = 0 then ''IP'' else ''unknown'')"

definition print_ipv4 :: "byte list \<Rightarrow> nat \<Rightarrow> sniff_out list option" where
  "print_ipv4 m ipv4 = do {
     ver_ihl \<leftarrow> ld8 m ipv4;
     tos \<leftarrow> ld8 m (ipv4 + 1);
     tlen \<leftarrow> ld16 m (ipv4 + 2);
     ident \<leftarrow> ld16 m (ipv4 + 4);
     offset \<leftarrow> ld16 m (ipv4 + 6);
     ttl \<leftarrow> ld8 m (ipv4 + 8);
     protocol \<leftarrow> ld8 m (ipv4 + 9);
     csum \<leftarrow> ld16 m (ipv4 + 10);
     Some [Field ''ver_ihl'' (unat ver_ihl), Field ''tos'' (unat tos), Field ''tlen'' (unat tlen),
       Field ''ident'' (unat ident), Field ''offset'' (unat offset), Field ''ttl'' (unat ttl),
       Field ''protocol'' (unat protocol), Field ''checksum'' (unat csum)] }"

definition print_udp :: "byte list \<Rightarrow> nat \<Rightarrow> sniff_out list option" where
  "print_udp m udp = do {
     sport \<leftarrow> ld16 m udp;
     dport \<leftarrow> ld16 m (udp + 2);
     len \<leftarrow> ld16 m (udp + 4);
     csum \<leftarrow> ld16 m (udp + 6);
     Some [Field ''source port'' (unat (ntohs sport)), Field ''destination port'' (unat (ntohs dport)),
       Field ''length'' (unat (ntohs len)), Field ''checksum'' (unat (ntohs csum))] }"

definition callback :: "u32 \<Rightarrow> byte list \<Rightarrow> sniff_out list option" where
  "callback sum0 packet = do {
     type \<leftarrow> ld16 packet 12;
     if ntohs type \<noteq> 0x0800 then Some [Ethernet (eth_name (ntohs type))]
     else do {
       smac \<leftarrow> ld_bytes packet 6 6;
       dmac \<leftarrow> ld_bytes packet 0 6;
       let out = [Ethernet ''IP'', Source_Mac smac, Destination_Mac dmac];
       let ipv4 = 14;
       ver_ihl \<leftarrow> ld8 packet ipv4;
       let ip_size = unat (ver_ihl AND 0x0F) * 4;
       if ip_size < 20 then Some (out @ [Wrong_Size ip_size])
       else do {
         c \<leftarrow> check_sum sum0 (drop ipv4 packet) (int ip_size);
         if c = 0 then Some (out @ [Wrong_Checksum])
         else do {
           fields \<leftarrow> print_ipv4 packet ipv4;
           protocol \<leftarrow> ld8 packet (ipv4 + 9);
           let out = out @ fields @ [Protocol (protocol_name protocol)];
           if protocol \<noteq> 17 then Some out
           else do {
             let udp = ipv4;
             ports \<leftarrow> print_udp packet udp;
             Some (out @ ports) } } } } }"

section \<open>Devices and options\<close>

datatype pcap_call =
    Findalldevs
  | Device string
  | Lookupdev "string option"
  | Lookupnet "string option"
  | Open_Live "string option"
  | Compile "nat option"
  | Setfilter "nat option"
  | Loop "nat option" nat
  | Close_Handle "nat option"
  | Error string

text \<open>An error is only printed. When the search for devices fails, the list has no value.\<close>

definition print_devices :: "string list option \<Rightarrow> pcap_call list option" where
  "print_devices devices = (case devices of
     None \<Rightarrow> None
   | Some ds \<Rightarrow> Some (Findalldevs # map Device ds))"

record pcap_results =
  devices :: "string list option"
  lookup_dev :: "string option"
  lookup_net :: bool
  handle :: "nat option"
  compiled :: bool
  filter_set :: bool

definition sniff_live :: "pcap_results \<Rightarrow> pcap_call list" where
  "sniff_live p =
     [Lookupdev (lookup_dev p)] @ (if lookup_dev p = None then [Error ''errbuf''] else [])
     @ [Lookupnet (lookup_dev p)] @ (if \<not> lookup_net p then [Error ''errbuf''] else [])
     @ [Open_Live (lookup_dev p)] @ (if handle p = None then [Error ''errbuf''] else [])
     @ [Compile (handle p)] @ (if \<not> compiled p then [Error ''pcap_compile()''] else [])
     @ [Setfilter (handle p)] @ (if \<not> filter_set p then [Error ''pcap_setfilter()''] else [])
     @ [Loop (handle p) 100000, Close_Handle (handle p)]"

fun sniff_main :: "pcap_results \<Rightarrow> char list \<Rightarrow> pcap_call list option" where
  "sniff_main p [] = Some []"
| "sniff_main p (c # opts) = do {
     out \<leftarrow> (if c = CHR ''p'' then print_devices (devices p)
            else if c = CHR ''l'' then Some (sniff_live p) else Some []);
     rest \<leftarrow> sniff_main p opts;
     Some (out @ rest) }"

text \<open>A failed call does not stop the program: the null handle is used all the same.\<close>

lemma null_handle_is_used:
  "handle p = None \<Longrightarrow> Compile None \<in> set (sniff_live p) \<and> Loop None 100000 \<in> set (sniff_live p)"
  by (simp add: sniff_live_def)

section \<open>Lemmas\<close>

text \<open>Reads inside a prefix do not see what follows it.\<close>

lemma ld_prefix:
  assumes "k \<le> length m"
  shows "j < k \<Longrightarrow> ld8 (take k m @ xs) j = ld8 m j"
    "j + 1 < k \<Longrightarrow> ld16 (take k m @ xs) j = ld16 m j"
    "j + n \<le> k \<Longrightarrow> ld_bytes (take k m @ xs) j n = ld_bytes m j n"
proof -
  have "take n (drop j (take k m)) = take n (drop j m)" if "j + n \<le> k"
    using that by (simp add: drop_take min_absorb1)
  then show "j < k \<Longrightarrow> ld8 (take k m @ xs) j = ld8 m j"
    "j + 1 < k \<Longrightarrow> ld16 (take k m @ xs) j = ld16 m j"
    "j + n \<le> k \<Longrightarrow> ld_bytes (take k m @ xs) j n = ld_bytes m j n"
    using assms by (auto simp: ld8_def ld16_def ld_bytes_def nth_append)
qed

lemma check_sum_prefix:
  assumes "n \<le> length m"
  shows "check_sum sum0 (take n m @ xs) (int n) = check_sum sum0 m (int n)"
proof -
  have "sum_words32 (take n m @ xs) (int n) sum0 = sum_words32 m (int n) sum0"
    using sum_words32_eq [of n "take n m @ xs" sum0] sum_words32_eq [of n m sum0] assms
    by (simp add: min_absorb1)
  moreover have "ld8 (take n m @ xs) 0 = ld8 m 0" if "n \<noteq> 0"
    using that assms by (auto simp: ld8_def nth_append)
  ultimately show ?thesis
    using sum_words32_eq [OF assms, of sum0] by (cases "n = 0") (auto simp: check_sum_def)
qed

lemmas callback_defs = callback_def print_ipv4_def print_udp_def

lemma callback_prefix:
  assumes "34 \<le> k" "k = 14 + unat (packet ! 14 AND 0x0F) * 4" "k \<le> length packet"
  shows "callback sum0 (take k packet @ xs) = callback sum0 packet"
proof -
  have d: "drop 14 (take k packet @ xs) = take (k - 14) (drop 14 packet) @ xs"
    using assms(1,3) by (simp add: drop_take)
  have k: "unat (packet ! 14 AND 0x0F) * 4 = k - 14" "uint (packet ! 14 AND 0x0F) * 4 = int k - 14"
    using assms(2) by simp_all
  have "check_sum sum0 (drop 14 (take k packet @ xs)) (int (k - 14)) = check_sum sum0 (drop 14 packet) (int (k - 14))"
    unfolding d by (rule check_sum_prefix) (use assms(3) in simp)
  moreover have "ld8 packet 14 = Some (packet ! 14)" using assms(1,3) by (simp add: ld8_def)
  ultimately show ?thesis
    unfolding callback_defs Let_def using assms(1)
    by (simp add: ld_prefix [OF assms(3)] k del: drop_append cong: if_cong)
qed

section \<open>Properties\<close>


text \<open>
  The ports, length and checksum that the callback prints for a UDP datagram are bytes of the IP
  header: what it prints depends on nothing behind that header, for every accumulator.
\<close>

lemma sniffer_ignores_udp_header:
  assumes "20 \<le> n" "n = unat (packet ! 14 AND 0x0F) * 4" "14 + n \<le> length packet"
  shows "callback sum0 (take (14 + n) packet @ payload) = callback sum0 packet"
  by (rule callback_prefix) (use assms in simp_all)

text \<open>A frame with a UDP datagram; its header is right, or has one wrong byte.\<close>

definition good_frame :: "byte list" where
  "good_frame = [1, 1, 1, 1, 1, 1, 1, 1, 1, 1, 1, 1, 8, 0] @
     [0x45, 0, 0, 30, 0, 0, 0, 0, 64, 17, 0x7C, 0xC8, 127, 0, 0, 1, 127, 0, 0, 6] @
     [31, 64, 31, 65, 0, 10, 0, 0, 104, 105]"

lemma good_frame_facts:
  "(20 :: nat) \<le> 20" "20 = unat (good_frame ! 14 AND 0x0F) * 4" "14 + 20 \<le> length good_frame"
  "good_frame ! 12 = 8" "good_frame ! 13 = 0"
  "take 20 (drop 14 good_frame) = [0x45, 0, 0, 30, 0, 0, 0, 0, 64, 17, 0x7C, 0xC8, 127, 0, 0, 1, 127, 0, 0, 6]"
  by (simp_all add: good_frame_def)


lemma sniffer_ignores_udp_header_witness:
  "callback 5 (take (14 + 20) good_frame @ [1, 2]) = callback 5 good_frame"
  by (rule sniffer_ignores_udp_header [OF good_frame_facts(1-3)])

end
