(* ===== verification/SnifferFormat.thy ===== *)
theory SnifferFormat
  imports Sniffer
begin

text \<open>
  The structures that sniffer/main.c lays over the captured bytes, as records with their bytes and
  readers, and what the callback does, stated on them.
\<close>

section \<open>The structures\<close>

text \<open>The arrays of six bytes are lists.\<close>

record ethernet_header =
  dmac :: "byte list"
  smac :: "byte list"
  ether_type :: u16

definition ethernet_wf :: "ethernet_header \<Rightarrow> bool" where
  "ethernet_wf e \<longleftrightarrow> length (dmac e) = 6 \<and> length (smac e) = 6"

definition enc_ethernet :: "ethernet_header \<Rightarrow> byte list" where
  "enc_ethernet e = dmac e @ smac e @ bytes16 (ether_type e)"

definition ethernet_at :: "byte list \<Rightarrow> nat \<Rightarrow> ethernet_header option" where
  "ethernet_at m p = do {
     d \<leftarrow> ld_bytes m p 6;
     s \<leftarrow> ld_bytes m (p + 6) 6;
     t \<leftarrow> ld16 m (p + 12);
     Some \<lparr>dmac = d, smac = s, ether_type = t\<rparr> }"

record ipv4_address =
  b1 :: byte
  b2 :: byte
  b3 :: byte
  b4 :: byte

definition enc_address :: "ipv4_address \<Rightarrow> byte list" where
  "enc_address a = [b1 a, b2 a, b3 a, b4 a]"

definition address_at :: "byte list \<Rightarrow> nat \<Rightarrow> ipv4_address option" where
  "address_at m p = do {
     a \<leftarrow> ld8 m p; b \<leftarrow> ld8 m (p + 1); c \<leftarrow> ld8 m (p + 2); d \<leftarrow> ld8 m (p + 3);
     Some \<lparr>b1 = a, b2 = b, b3 = c, b4 = d\<rparr> }"

record ipv4_header =
  ver_ihl :: byte
  ip_tos :: byte
  ip_tlen :: u16
  ip_ident :: u16
  ip_offset :: u16
  ip_ttl :: byte
  ip_protocol :: byte
  ip_sum :: u16
  ip_saddr :: ipv4_address
  ip_daddr :: ipv4_address

definition enc_ipv4 :: "ipv4_header \<Rightarrow> byte list" where
  "enc_ipv4 h = [ver_ihl h, ip_tos h] @ bytes16 (ip_tlen h) @ bytes16 (ip_ident h) @ bytes16 (ip_offset h)
     @ [ip_ttl h, ip_protocol h] @ bytes16 (ip_sum h) @ enc_address (ip_saddr h) @ enc_address (ip_daddr h)"

definition ipv4_at :: "byte list \<Rightarrow> nat \<Rightarrow> ipv4_header option" where
  "ipv4_at m p = do {
     v \<leftarrow> ld8 m p;
     t \<leftarrow> ld8 m (p + 1);
     n \<leftarrow> ld16 m (p + 2);
     i \<leftarrow> ld16 m (p + 4);
     f \<leftarrow> ld16 m (p + 6);
     l \<leftarrow> ld8 m (p + 8);
     c \<leftarrow> ld8 m (p + 9);
     s \<leftarrow> ld16 m (p + 10);
     sa \<leftarrow> address_at m (p + 12);
     da \<leftarrow> address_at m (p + 16);
     Some \<lparr>ver_ihl = v, ip_tos = t, ip_tlen = n, ip_ident = i, ip_offset = f, ip_ttl = l, ip_protocol = c,
       ip_sum = s, ip_saddr = sa, ip_daddr = da\<rparr> }"

text \<open>The macros of both halves of the first byte.\<close>

definition IP_VER :: "ipv4_header \<Rightarrow> nat" where
  "IP_VER ip = unat (drop_bit 4 (ver_ihl ip))"

definition IP_IHL :: "ipv4_header \<Rightarrow> nat" where
  "IP_IHL ip = unat (ver_ihl ip AND 0x0F)"

record udp_header =
  udp_sport :: u16
  udp_dport :: u16
  udp_length :: u16
  udp_sum :: u16

definition udp_at :: "byte list \<Rightarrow> nat \<Rightarrow> udp_header option" where
  "udp_at m p = do {
     s \<leftarrow> ld16 m p; d \<leftarrow> ld16 m (p + 2); l \<leftarrow> ld16 m (p + 4); c \<leftarrow> ld16 m (p + 6);
     Some \<lparr>udp_sport = s, udp_dport = d, udp_length = l, udp_sum = c\<rparr> }"

section \<open>Layout\<close>

lemma sizeof_headers:
  "ethernet_wf e \<Longrightarrow> length (enc_ethernet e) = 14" "length (enc_ipv4 h) = 20"
  by (simp_all add: enc_ethernet_def ethernet_wf_def enc_ipv4_def enc_address_def bytes16_def)

lemma ethernet_roundtrip:
  "ethernet_wf e \<Longrightarrow> ethernet_at (pre @ enc_ethernet e @ rest) (length pre) = Some e"
  by (simp add: ethernet_at_def enc_ethernet_def ethernet_wf_def bytes16_def ld_bytes_def ld16_eq nth_append)

lemma address_roundtrip: "address_at (pre @ enc_address a @ rest) (length pre) = Some a"
  by (simp add: address_at_def enc_address_def ld8_eq nth_append)

lemma ipv4_roundtrip: "ipv4_at (pre @ enc_ipv4 h @ rest) (length pre) = Some h"
  by (simp add: ipv4_at_def address_at_def enc_ipv4_def enc_address_def bytes16_def ld8_eq ld16_eq nth_append)

section \<open>The callback on the structures\<close>

definition ipv4_fields :: "ipv4_header \<Rightarrow> sniff_out list" where
  "ipv4_fields h = [Field ''ver_ihl'' (unat (ver_ihl h)), Field ''tos'' (unat (ip_tos h)), Field ''tlen'' (unat (ip_tlen h)),
     Field ''ident'' (unat (ip_ident h)), Field ''offset'' (unat (ip_offset h)), Field ''ttl'' (unat (ip_ttl h)),
     Field ''protocol'' (unat (ip_protocol h)), Field ''checksum'' (unat (ip_sum h))]"

definition udp_fields :: "udp_header \<Rightarrow> sniff_out list" where
  "udp_fields u = [Field ''source port'' (unat (ntohs (udp_sport u))), Field ''destination port'' (unat (ntohs (udp_dport u))),
     Field ''length'' (unat (ntohs (udp_length u))), Field ''checksum'' (unat (ntohs (udp_sum u)))]"

lemma ethernet_at_reads:
  "ethernet_at m p = Some e \<Longrightarrow> ld_bytes m p 6 = Some (dmac e) \<and> ld_bytes m (p + 6) 6 = Some (smac e)
     \<and> ld16 m (p + 12) = Some (ether_type e)"
  by (auto simp: ethernet_at_def split: bind_splits)

lemma print_ipv4_fields:
  "ipv4_at m p = Some h \<Longrightarrow> print_ipv4 m p = Some (ipv4_fields h) \<and> ld8 m p = Some (ver_ihl h)
     \<and> ld8 m (p + 9) = Some (ip_protocol h)"
  by (auto simp: ipv4_at_def print_ipv4_def ipv4_fields_def split: bind_splits)

lemma print_udp_fields: "udp_at m p = Some u \<Longrightarrow> print_udp m p = Some (udp_fields u)"
  by (auto simp: udp_at_def print_udp_def udp_fields_def split: bind_splits)

text \<open>A UDP header over the IP header: its ports are the version, the type of service and the length.\<close>

definition overlay :: "ipv4_header \<Rightarrow> udp_header" where
  "overlay h = \<lparr>udp_sport = word16_of (ver_ihl h) (ip_tos h), udp_dport = ip_tlen h, udp_length = ip_ident h,
     udp_sum = ip_offset h\<rparr>"

lemma udp_overlay: "ipv4_at m p = Some h \<Longrightarrow> udp_at m p = Some (overlay h)"
  by (auto simp: ipv4_at_def udp_at_def overlay_def ld16_def ld8_def split: bind_splits if_splits)

text \<open>
  What the callback prints for every frame with both headers captured, whatever the accumulator holds:
  the fields of the structures, except that the ports of a UDP datagram are those of the overlay.
\<close>

lemma callback_on_structures:
  assumes "ethernet_at packet 0 = Some e" "ipv4_at packet 14 = Some h"
  shows "callback sum0 packet =
    (if ntohs (ether_type e) \<noteq> 0x0800 then Some [Ethernet (eth_name (ntohs (ether_type e)))]
     else let out = [Ethernet ''IP'', Source_Mac (smac e), Destination_Mac (dmac e)]
       in if IP_IHL h < 5 then Some (out @ [Wrong_Size (IP_IHL h * 4)])
          else do {
            c \<leftarrow> check_sum sum0 (drop 14 packet) (int (IP_IHL h * 4));
            Some (out @ (if c = 0 then [Wrong_Checksum]
              else ipv4_fields h @ [Protocol (protocol_name (ip_protocol h))]
                @ (if ip_protocol h = 17 then udp_fields (overlay h) else []))) })"
proof -
  have e: "ld_bytes packet 0 6 = Some (dmac e)" "ld_bytes packet 6 6 = Some (smac e)" "ld16 packet 12 = Some (ether_type e)"
    using ethernet_at_reads [OF assms(1)] by simp_all
  have h: "print_ipv4 packet 14 = Some (ipv4_fields h)" "ld8 packet 14 = Some (ver_ihl h)" "ld8 packet 23 = Some (ip_protocol h)"
    using print_ipv4_fields [OF assms(2)] by simp_all
  have u: "print_udp packet 14 = Some (udp_fields (overlay h))"
    by (rule print_udp_fields [OF udp_overlay [OF assms(2)]])
  show ?thesis
    by (cases "check_sum sum0 (drop 14 packet) (int (IP_IHL h * 4))")
      (simp_all add: callback_def e h u Let_def IP_IHL_def cong: if_cong)
qed

end
