(* ===== verification/RawSocket.thy ===== *)
theory RawSocket
  imports Syscalls Checksum
begin

text \<open>
  raw\_socket: the wrappers of socket.c, its two header builders, and main.c with the UDP server, the
  client that builds its own IP packets, and the options. A negative reply of the kernel is the
  negated error number, so an interrupted call replies -4. \<^verbatim>\<open>inet_addr\<close> and \<^verbatim>\<open>atoi\<close> are
  the library's.
\<close>

section \<open>socket.c\<close>

abbreviation (input) EINTR :: int where "EINTR \<equiv> 4"
abbreviation (input) IPPROTO_RAW :: int where "IPPROTO_RAW \<equiv> 255"

text \<open>The macro RETRY repeats a call that was interrupted.\<close>

fun RETRY :: "call \<Rightarrow> (int \<Rightarrow> program) \<Rightarrow> program" where
  "RETRY c k rs = sys c (\<lambda>r rs. if ret r = - EINTR then RETRY c k rs else k (ret r) rs) rs"

declare RETRY.simps [simp del]

definition raw_socket_create :: "int \<Rightarrow> int \<Rightarrow> (int \<Rightarrow> program) \<Rightarrow> program" where
  "raw_socket_create type proto k =
     RETRY (Socket type proto) (\<lambda>sock. if sock < 0 then (\<lambda>_. [Die 10]) else k sock)"

definition raw_socket_close :: "int \<Rightarrow> program \<Rightarrow> program" where
  "raw_socket_close sock k = RETRY (Close sock) (\<lambda>r. if r < 0 then (\<lambda>_. [Die 18]) else k)"

definition raw_socket_bind :: "int \<Rightarrow> sockaddr \<Rightarrow> program \<Rightarrow> program" where
  "raw_socket_bind sock addr = checked (Bind sock addr) 28"

text \<open>
  The header builders work on the header at offset \<open>ip\<close> of an object \<open>m\<close>. The four bit fields share
  a byte. The length that is passed to the checksum is the field after its conversion.
\<close>

definition iphdr_create :: "(byte list \<Rightarrow> u32) \<Rightarrow> byte list \<Rightarrow> nat \<Rightarrow> byte list \<Rightarrow> int \<Rightarrow> byte list option" where
  "iphdr_create inet_addr m ip daddr tot_len = do {
     b \<leftarrow> ld8 m ip;
     m \<leftarrow> st8 m ip ((b AND 0xF0) OR 5);
     b \<leftarrow> ld8 m ip;
     m \<leftarrow> st8 m ip ((b AND 0x0F) OR 0x40);
     m \<leftarrow> st8 m (ip + 1) 0;
     m \<leftarrow> st16 m (ip + 2) (htons (word_of_int tot_len));
     m \<leftarrow> st16 m (ip + 4) (htons 0);
     m \<leftarrow> st16 m (ip + 6) 0;
     m \<leftarrow> st8 m (ip + 8) 255;
     m \<leftarrow> st8 m (ip + 9) 17;
     m \<leftarrow> st32 m (ip + 12) (htonl 0);
     m \<leftarrow> st32 m (ip + 16) (inet_addr daddr);
     m \<leftarrow> st16 m (ip + 10) 0;
     l \<leftarrow> ld16 m (ip + 2);
     c \<leftarrow> checksum (drop ip m) (int (unat l));
     st16 m (ip + 10) c }"

definition udphdr_create :: "byte list \<Rightarrow> nat \<Rightarrow> u16 \<Rightarrow> u16 \<Rightarrow> int \<Rightarrow> byte list option" where
  "udphdr_create m udp dport sport len = do {
     m \<leftarrow> st16 m (udp + 2) (htons dport);
     m \<leftarrow> st16 m udp (htons sport);
     m \<leftarrow> st16 m (udp + 4) (htons (word_of_int (8 + len)));
     st16 m (udp + 6) 0 }"

section \<open>main.c\<close>

fun raw_server_loop :: "int \<Rightarrow> byte list \<Rightarrow> program" where
  "raw_server_loop sock buf rs =
     sys (Recv sock 256) (\<lambda>r rs.
       let (nread, buf) = recv_into 256 buf r in
       if nread < 0 then [Die 44]
       else poke buf nread 0 (\<lambda>buf. print_s ''recieve from client - '' buf
         (raw_server_loop sock buf rs))) rs"

declare raw_server_loop.simps [simp del]

definition server_udp_raw :: "sockaddr \<Rightarrow> byte list \<Rightarrow> program" where
  "server_udp_raw saddr buf =
     raw_socket_create SOCK_DGRAM 0 (\<lambda>sock. raw_socket_bind sock saddr (raw_server_loop sock buf))"

definition hello_world :: "byte list" where
  "hello_world = [104, 101, 108, 108, 111, 32, 119, 111, 114, 108, 100, 10]"

text \<open>
  The packet of the client, in a stack buffer of any content. \<^verbatim>\<open>strlen(data)\<close> is read
  from the buffer each time, as the code does.
\<close>

definition build_packet :: "sockaddr \<Rightarrow> byte list \<Rightarrow> (byte list \<times> nat) option" where
  "build_packet addr buf = do {
     let data = 20 + 8;
     let udp = 20;
     m \<leftarrow> st_bytes buf data (hello_world @ [0]);
     b \<leftarrow> ld8 m 0;
     m \<leftarrow> st8 m 0 ((b AND 0xF0) OR 5);
     b \<leftarrow> ld8 m 0;
     m \<leftarrow> st8 m 0 ((b AND 0x0F) OR 0x40);
     m \<leftarrow> st16 m 4 (htons 12345);
     m \<leftarrow> st32 m 16 0;
     m \<leftarrow> st8 m 8 20;
     m \<leftarrow> st8 m 1 0;
     m \<leftarrow> st16 m 6 0;
     m \<leftarrow> st8 m 9 17;
     m \<leftarrow> st32 m 12 (htonl 0);
     n \<leftarrow> strlen (drop data m);
     m \<leftarrow> st16 m 2 (word_of_nat (20 + 8 + n));
     m \<leftarrow> st16 m 10 0;
     m \<leftarrow> st32 m 16 (sin_addr addr);
     l \<leftarrow> ld16 m 2;
     c \<leftarrow> checksum m (int (unat l));
     m \<leftarrow> st16 m 10 c;
     m \<leftarrow> st16 m udp 0;
     m \<leftarrow> st16 m (udp + 2) (sin_port addr);
     n \<leftarrow> strlen (drop data m);
     m \<leftarrow> st16 m (udp + 4) (htons (word_of_nat (8 + n)));
     m \<leftarrow> st16 m (udp + 6) 0;
     l \<leftarrow> ld16 m 2;
     Some (m, unat l) }"

fun raw_client_loop :: "int \<Rightarrow> byte list \<Rightarrow> nat \<Rightarrow> sockaddr \<Rightarrow> program" where
  "raw_client_loop sock buf tot_len addr rs =
     Sleep 1 # sys (Sendto sock (take tot_len buf) addr) (\<lambda>r rs.
       if ret r < 0 then [Die 96] else raw_client_loop sock buf tot_len addr rs) rs"

declare raw_client_loop.simps [simp del]

definition client_udp_raw :: "sockaddr \<Rightarrow> byte list \<Rightarrow> program" where
  "client_udp_raw addr buf =
     raw_socket_create SOCK_RAW IPPROTO_RAW (\<lambda>sock.
       case build_packet addr buf of None \<Rightarrow> (\<lambda>_. [Undefined])
       | Some (m, tot_len) \<Rightarrow> raw_client_loop sock m tot_len addr)"

datatype choice = SERVER | CLIENT

fun raw_option :: "(string \<Rightarrow> int) \<Rightarrow> (string \<Rightarrow> u32) \<Rightarrow> choice \<times> sockaddr \<Rightarrow> char \<times> string \<Rightarrow> choice \<times> sockaddr" where
  "raw_option atoi inet_addr (ch, addr) (opt, optarg) =
     (if opt = CHR ''s'' then (SERVER, addr)
      else if opt = CHR ''c'' then (CLIENT, addr)
      else if opt = CHR ''p'' then (ch, addr\<lparr>sin_port := htons (word_of_int (atoi optarg))\<rparr>)
      else if opt = CHR ''i'' then (ch, addr\<lparr>sin_addr := inet_addr optarg\<rparr>)
      else (ch, addr))"

text \<open>\<^verbatim>\<open>getopt\<close> yields the options with their arguments; both stacks hold anything.\<close>

definition raw_main :: "(string \<Rightarrow> int) \<Rightarrow> (string \<Rightarrow> u32) \<Rightarrow> (char \<times> string) list \<Rightarrow> byte list \<Rightarrow> byte list \<Rightarrow> program" where
  "raw_main atoi inet_addr opts sbuf cbuf =
     (let (ch, addr) = foldl (raw_option atoi inet_addr)
            (SERVER, \<lparr>sin_port = htons 8000, sin_addr = inet_addr ''127.0.0.1''\<rparr>) opts
      in case ch of SERVER \<Rightarrow> server_udp_raw addr sbuf | CLIENT \<Rightarrow> client_udp_raw addr cbuf)"

section \<open>Lemmas\<close>

definition ip_head :: "sockaddr \<Rightarrow> byte \<Rightarrow> byte \<Rightarrow> byte list" where
  "ip_head addr c0 c1 = [0x45, 0, 40, 0, 0x30, 0x39, 0, 0, 20, 17, c0, c1, 0, 0, 0, 0,
     byte0 (sin_addr addr), byte1 (sin_addr addr), byte2 (sin_addr addr), byte3 (sin_addr addr)]"

definition udp_head :: "sockaddr \<Rightarrow> byte list" where
  "udp_head addr = [0, 0, byte0 (sin_port addr), byte1 (sin_port addr), 0, 20, 0, 0]"

lemma build_packet_eq:
  fixes addr :: sockaddr
  assumes "length xs = 20" "length g = 8" "length ys = 13"
  defines "c \<equiv> rfc1071 (ip_head addr 0 0 @ g @ hello_world)"
  shows "build_packet addr (xs @ g @ ys @ rest) =
    Some (ip_head addr (byte0 c) (byte1 c) @ udp_head addr @ hello_world @ 0 # rest, 40)"
proof -
  obtain x0 x1 x2 x3 x4 x5 x6 x7 x8 x9 y0 y1 y2 y3 y4 y5 y6 y7 y8 y9 where
    xs: "xs = [x0, x1, x2, x3, x4, x5, x6, x7, x8, x9, y0, y1, y2, y3, y4, y5, y6, y7, y8, y9]"
    using assms(1) by (auto simp: length_Suc_conv eval_nat_numeral)
  obtain g0 g1 g2 g3 g4 g5 g6 g7 where g: "g = [g0, g1, g2, g3, g4, g5, g6, g7]"
    using assms(2) by (auto simp: length_Suc_conv eval_nat_numeral)
  have swaps: "byte0 (htons 12345) = 0x30" "byte1 (htons 12345) = 0x39"
    "byte0 (htons 20) = 0" "byte1 (htons 20) = 20" "byte0 (40 :: u16) = 40" "byte1 (40 :: u16) = 0"
    "byte0 (0 :: u16) = 0" "byte1 (0 :: u16) = 0"
    "byte0 (0 :: u32) = 0" "byte1 (0 :: u32) = 0" "byte2 (0 :: u32) = 0" "byte3 (0 :: u32) = 0"
    "htonl 0 = 0" "word16_of 40 0 = (40 :: u16)"
    by (simp_all add: bswap16_def bswap32_def byte0_def byte1_def byte2_def byte3_def word16_of_def)
  let ?m = "ip_head addr 0 0 @ g @ hello_world @ 0 # rest"
  have "word_sum (take 40 ?m) < 2 ^ 31" by (intro word_sum_int_safe) simp
  moreover have "take 40 ?m = ip_head addr 0 0 @ g @ hello_world"
    by (simp add: ip_head_def g hello_world_def)
  ultimately have "checksum ?m 40 = Some c"
    using checksum_eq [of 40 ?m] by (simp add: c_def g ip_head_def hello_world_def)
  then have c: "checksum (0x45 # 0 # 40 # 0 # 0x30 # 0x39 # 0 # 0 # 20 # 17 # 0 # 0 # 0 # 0 # 0 # 0 #
      byte0 (sin_addr addr) # byte1 (sin_addr addr) # byte2 (sin_addr addr) # byte3 (sin_addr addr) #
      g0 # g1 # g2 # g3 # g4 # g5 # g6 # g7 # 104 # 101 # 108 # 108 # 111 # 32 # 119 # 111 # 114 # 108 # 100 # 10 # 0 # rest) 40
     = Some c"
    by (simp add: ip_head_def g hello_world_def)
  show ?thesis
    unfolding build_packet_def Let_def
    by (simp add: xs g assms(3) st_bytes_def st8_eq st16_eq st32_eq ld8_eq ld16_eq version_and_ihl swaps
        hello_world_def c ip_head_def udp_head_def)
qed

text \<open>A checksum that was taken over more than the header verifies only by chance.\<close>

lemma checksum_over_more:
  assumes "0 < h"
  shows "65535 dvd h + (65535 - norm16 (h + s)) \<longleftrightarrow> 65535 dvd s"
proof -
  obtain q where q: "h + s = norm16 (h + s) + 65535 * q" by (rule norm16_decompose)
  have "(h + (65535 - norm16 (h + s))) + s = 65535 * (q + 1)"
    using q norm16_le [of "h + s"] by simp
  then have "65535 dvd (h + (65535 - norm16 (h + s))) + s" by simp
  then show ?thesis by (metis add.commute dvd_add_right_iff)
qed

lemma ip_head_sum:
  fixes c :: u16
  shows
  "0 < word_sum (ip_head addr 0 0)"
  "word_sum (ip_head addr (byte0 c) (byte1 c)) = word_sum (ip_head addr 0 0) + unat c"
proof -
  have "word16_of 0 0 = 0" by (simp add: word16_of_def)
  then show "word_sum (ip_head addr (byte0 c) (byte1 c)) = word_sum (ip_head addr 0 0) + unat c"
    by (simp add: ip_head_def word_sum_def)
  show "0 < word_sum (ip_head addr 0 0)"
    by (simp add: ip_head_def word_sum_def unat_word16_of)
qed

text \<open>
  \<open>iphdr_create\<close> takes the length of the checksum from the field it has just converted to network
  order: unless the object happens to have that many bytes, it reads behind it.
\<close>

lemma iphdr_create_overreads:
  assumes "ip + 20 \<le> length m" "length m < ip + unat (htons (word_of_int tot_len :: u16))"
  shows "iphdr_create inet_addr m ip daddr tot_len = None"
proof -
  define l :: u16 where "l = htons (word_of_int tot_len)"
  have "checksum (drop ip x) (int (unat l)) = None" if "length x = length m" for x
    using assms that by (simp only: checksum_functional) (auto simp: l_def)
  then have "checksum (drop ip x) (uint l) = None" if "length x = length m" for x
    using that by simp
  then show ?thesis
    using assms(1) unfolding iphdr_create_def l_def [symmetric] by (simp add: put_simps)
qed

section \<open>Properties\<close>

text \<open>
  C38. The packet of the raw client: from any stack content it is 40 bytes with these contents: an IP
  header with the total length in host order, the UDP header and the greeting. The checksum of
  the IP header is taken over all 40 bytes, before the UDP header is written: the header alone
  verifies exactly if the eight stack bytes and the greeting happen to sum to a multiple of
  65535.
\<close>

theorem raw_packet:
  assumes "41 \<le> length buf"
  shows "\<exists>m c0 c1. build_packet addr buf = Some (m, 40) \<and> length m = length buf
    \<and> take 40 m = ip_head addr c0 c1 @ udp_head addr @ hello_world
    \<and> (rfc1071 (take 20 m) = 0 \<longleftrightarrow> 65535 dvd word_sum (take 8 (drop 20 buf) @ hello_world))"
proof -
  define g where "g = take 8 (drop 20 buf)"
  define c where "c = rfc1071 (ip_head addr 0 0 @ g @ hello_world)"
  have d1: "drop 20 buf = g @ drop 28 buf"
    using append_take_drop_id [of 8 "drop 20 buf"] by (simp add: g_def)
  have d2: "drop 28 buf = take 13 (drop 28 buf) @ drop 41 buf"
    using append_take_drop_id [of 13 "drop 28 buf"] by simp
  have buf: "buf = take 20 buf @ g @ take 13 (drop 28 buf) @ drop 41 buf"
    by (simp only: d1 [symmetric] d2 [symmetric] append_take_drop_id)
  have b: "build_packet addr buf =
      Some (ip_head addr (byte0 c) (byte1 c) @ udp_head addr @ hello_world @ 0 # drop 41 buf, 40)"
    by (subst buf, subst build_packet_eq) (use assms in \<open>simp_all add: g_def c_def\<close>)
  define s where "s = word_sum (g @ hello_world)"
  have "word_sum (ip_head addr 0 0 @ g @ hello_world) = word_sum (ip_head addr 0 0) + s"
    unfolding s_def by (rule word_sum_append) (simp add: ip_head_def)
  then have "unat c = 65535 - norm16 (word_sum (ip_head addr 0 0) + s)"
    by (simp add: c_def unat_rfc1071)
  then have "rfc1071 (ip_head addr (byte0 c) (byte1 c)) = 0 \<longleftrightarrow> 65535 dvd s"
    using ip_head_sum [of addr] checksum_over_more [of "word_sum (ip_head addr 0 0)" s]
    by (simp add: rfc1071_zero_iff)
  moreover have "length (ip_head addr (byte0 c) (byte1 c)) = 20" "length (udp_head addr) = 8" "length hello_world = 12"
    by (simp_all add: ip_head_def udp_head_def hello_world_def)
  ultimately show ?thesis using assms by (auto simp: b g_def s_def intro!: exI)
qed

theorem raw_packet_witness:
  "\<exists>m. build_packet \<lparr>sin_port = htons 8000, sin_addr = 0x100007F\<rparr> (replicate 4096 0) = Some (m, 40)
    \<and> rfc1071 (take 20 m) \<noteq> 0"
proof -
  let ?z = "take 8 (drop 20 (replicate 4096 0)) :: byte list"
  have "?z = replicate 8 0" by simp
  also have "\<dots> = [0, 0, 0, 0, 0, 0, 0, 0]" by (simp add: numeral_eq_Suc)
  finally have z: "?z = [0, 0, 0, 0, 0, 0, 0, 0]" .
  have "\<not> 65535 dvd word_sum (?z @ hello_world)"
    unfolding z by (simp add: word_sum_def hello_world_def unat_word16_of)
  moreover have "41 \<le> length (replicate 4096 (0 :: byte))" by simp
  note raw_packet [OF this, of "\<lparr>sin_port = htons 8000, sin_addr = 0x100007F\<rparr>"]
  ultimately show ?thesis by blast
qed

end
