(* ===== verification/Processes.thy ===== *)
theory Processes
  imports Syscalls
begin

text \<open>
  The two programs about processes: daemon/main.c, which turns itself into a daemon, and
  pipe/main.c, whose parent sends a line to its child through a pipe. A trace is that of one
  process: the reply of the fork says which one.
\<close>

section \<open>daemon/main.c\<close>

definition daemonize :: "program \<Rightarrow> program" where
  "daemonize k =
     sys Fork (\<lambda>r. let pid = ret r in
       if pid < 0 then (\<lambda>_. [Die 30])
       else if pid > 0 then (\<lambda>_. [Exit 0])
       else sys (Umask 0) (\<lambda>_. sys Setsid (\<lambda>r. let sid = ret r in
         if sid < 0 then (\<lambda>_. [Exit 1])
         else sys (Signal 17) (\<lambda>_.
           checked (Chdir ''/'') 45
           (sys (Close 0) (\<lambda>_. sys (Close 1) (\<lambda>_. sys (Close 2) (\<lambda>_.
             sys (Syslog ''message from daemon.'') (\<lambda>_. k)))))))))"

definition daemon_main :: program where
  "daemon_main = daemonize (\<lambda>_. [Exit 0])"

section \<open>pipe/main.c\<close>

definition pipe_hello :: "byte list \<Rightarrow> byte list" where
  "pipe_hello buffer = [104, 101, 108, 108, 111, 32, 119, 111, 114, 108, 100, 10, 0] @ drop 13 buffer"

definition pipe_child :: "int \<Rightarrow> int \<Rightarrow> byte list \<Rightarrow> program" where
  "pipe_child fd0 fd1 buffer =
     sys (Close fd1) (\<lambda>_. sys (Read fd0 256) (\<lambda>r rs.
       let (_, buffer) = recv_into 256 buffer r in
       print_s ''Recv - '' buffer (sys (Close fd0) (\<lambda>_ _. [Exit 0]) rs)))"

definition pipe_parent :: "int \<Rightarrow> int \<Rightarrow> byte list \<Rightarrow> program" where
  "pipe_parent fd0 fd1 buffer =
     sys (Close fd0) (\<lambda>_ rs. let buffer = pipe_hello buffer in
       print_s ''Send - '' buffer
         (sys (Write fd1 buffer) (\<lambda>_. sys (Close fd1) (\<lambda>_. sys Wait (\<lambda>_ _. [Exit 0]))) rs))"

definition pipe_main :: program where
  "pipe_main =
     (let buffer = replicate 256 0 in
      sys Pipe (\<lambda>r. case r of
        Fds fd0 fd1 \<Rightarrow> sys Fork (\<lambda>r.
          if ret r = - 1 then (\<lambda>_. [Exit 1])
          else if ret r = 0 then pipe_child fd0 fd1 buffer
          else pipe_parent fd0 fd1 buffer)
      | _ \<Rightarrow> (\<lambda>_. [Exit 1])))"

section \<open>Lemmas\<close>

text \<open>What comes before an event in a trace.\<close>

fun calls :: "event list \<Rightarrow> call list" where
  "calls [] = []"
| "calls (Sys c _ # t) = c # calls t"
| "calls (Pending c # t) = c # calls t"
| "calls (_ # t) = calls t"

text \<open>
  The daemon logs only as the child, in a session of its own, in the root directory and with the
  three standard descriptors closed; the parent only forks.
\<close>

lemma daemon_order:
  assumes "Syslog msg \<in> set (calls (daemon_main rs))"
  shows "take 8 (calls (daemon_main rs)) =
      [Fork, Umask 0, Setsid, Signal 17, Chdir ''/'', Close 0, Close 1, Close 2]
    \<and> (\<exists>r rs'. rs = r # rs' \<and> ret r = 0)"
  using assms
  by (auto simp: daemon_main_def daemonize_def sys_def checked_def Let_def split: list.splits if_splits)

lemma daemon_parent: "0 < pid \<Longrightarrow> daemon_main (Ret pid # rs) = [Sys Fork (Ret pid), Exit 0]"
  by (simp add: daemon_main_def daemonize_def)

text \<open>
  Parent and child together. The child reads what the parent has written, or the first bytes of
  it, or nothing when the write failed; a pipe carries no address.
\<close>

abbreviation (input) no_addr :: sockaddr where "no_addr \<equiv> \<lparr>sin_port = 0, sin_addr = 0\<rparr>"

definition line :: "byte list" where
  "line = [104, 101, 108, 108, 111, 32, 119, 111, 114, 108, 100, 10]"

lemma pipe_hello_eq: "pipe_hello (replicate 256 0) = line @ replicate 244 0"
proof -
  have "replicate 244 (0 :: byte) = 0 # replicate 243 0" by (simp flip: replicate_Suc)
  then show ?thesis by (simp add: pipe_hello_def line_def)
qed

lemma pipe_child_buffer:
  fixes n :: nat
  defines "bs \<equiv> take n (line @ replicate 244 0)"
  shows "cstr (bs @ drop (length bs) (replicate 256 0)) = take (min n 12) line"
    "terminated (bs @ drop (length bs) (replicate 256 0))" "length bs \<le> 256"
proof -
  have line: "length line = 12" "0 \<notin> set line" by (simp_all add: line_def)
  have bs: "bs = take n line @ replicate (min (n - 12) 244) 0"
    using line(1) by (simp add: bs_def take_append min.commute)
  have "drop (length bs) (replicate 256 (0 :: byte)) = replicate (256 - min n 256) 0"
    using line(1) by (simp add: bs_def min.commute)
  then have eq: "bs @ drop (length bs) (replicate 256 0) =
      take n line @ replicate (min (n - 12) 244 + (256 - min n 256)) 0"
    by (simp only: bs append_assoc replicate_add)
  have "0 \<notin> set (take n line)" using line(2) by (meson in_set_takeD)
  then have "cstr (take n line @ replicate k 0) = take n line" for k by (simp add: cstr_append)
  moreover have "take n line = take (min n 12) line" using line(1) by (simp add: min_def)
  ultimately show "cstr (bs @ drop (length bs) (replicate 256 0)) = take (min n 12) line" by (simp only: eq)
  have "min (n - 12) 244 + (256 - min n 256) \<noteq> 0" by linarith
  then show "terminated (bs @ drop (length bs) (replicate 256 0))" unfolding eq by simp
  show "length bs \<le> 256" using line(1) by (simp add: bs_def)
qed

section \<open>Properties\<close>

text \<open>
  The line arrives: whatever the first part is that the child's read returns of what the parent
  wrote, the child prints that part of the line (all of it from 12 bytes on) and stays inside
  its buffer, and both processes use and then close exactly the two ends of the pipe.
\<close>

lemma pipe_transfers:
  assumes "0 < pid" "fd0 \<noteq> fd1"
  shows "let parent = pipe_main [Fds fd0 fd1, Ret pid, Ret 0, Ret 256, Ret 0, Ret pid];
             written = concat (map fst (sends parent));
             child = pipe_main [Fds fd0 fd1, Ret 0, Ret 0, Data (take n written) no_addr, Ret 0]
         in prints parent = [line] \<and> length written = 256 \<and> prints child = [take (min n 12) line]
            \<and> fds_ok {} parent \<and> fds_ok {} child \<and> fds_left {} parent \<union> fds_left {} child = {}"
proof -
  let ?w = "line @ replicate 244 0"
  have "terminated ?w" "cstr ?w = line" by (simp_all add: cstr_append line_def)
  then have parent: "pipe_main [Fds fd0 fd1, Ret pid, Ret 0, Ret 256, Ret 0, Ret pid] =
      [Sys Pipe (Fds fd0 fd1), Sys Fork (Ret pid), Sys (Close fd0) (Ret 0), Printf ''Send - '' line,
       Sys (Write fd1 ?w) (Ret 256), Sys (Close fd1) (Ret 0), Sys Wait (Ret pid), Exit 0]"
    using assms(1) by (simp add: pipe_main_def pipe_parent_def pipe_hello_eq Let_def print_s_def)
  define bs where "bs = take n ?w"
  have child: "pipe_main [Fds fd0 fd1, Ret 0, Ret 0, Data bs no_addr, Ret 0] =
      [Sys Pipe (Fds fd0 fd1), Sys Fork (Ret 0), Sys (Close fd1) (Ret 0), Sys (Read fd0 256) (Data bs no_addr),
       Printf ''Recv - '' (take (min n 12) line), Sys (Close fd0) (Ret 0), Exit 0]"
    using pipe_child_buffer [of n, folded bs_def]
    by (simp add: pipe_main_def pipe_child_def Let_def print_s_def)
  have "length line = 12" by (simp add: line_def)
  then show ?thesis using assms by (auto simp: parent Let_def child simp del: take_append simp flip: bs_def)
qed

lemma pipe_transfers_witness:
  "prints (pipe_main [Fds 3 4, Ret 0, Ret 0, Data (take 5 (line @ replicate 244 0)) no_addr, Ret 0]) = [take 5 line]"
proof -
  have "concat (map fst (sends (pipe_main [Fds 3 4, Ret 99, Ret 0, Ret 256, Ret 0, Ret 99]))) = line @ replicate 244 0"
    by (simp add: pipe_main_def pipe_parent_def pipe_hello_eq Let_def print_s_def line_def)
  then show ?thesis using pipe_transfers [of 99 3 4 5] by (simp add: Let_def del: take_append)
qed

end
