(* ===== verification/Errors.thy ===== *)
theory Errors
  imports Syscalls
begin

text \<open>
  The helpers with which the programs report an error: \<^verbatim>\<open>die\<close>, which prints and exits, and the macro
  \<^verbatim>\<open>ERROR\<close>, which only prints. All calls in the sources pass a text without conversions, so that the
  formatted message is the text itself. What \<^verbatim>\<open>strerror(errno)\<close> returns is the argument \<open>err\<close>. In the
  traces of the programs an exit is the line that \<^verbatim>\<open>die\<close> was called from.
\<close>

record exit =
  stderr_text :: "byte list"
  exit_status :: int

abbreviation (input) EXIT_FAILURE :: int where "EXIT_FAILURE \<equiv> 1"

definition chars :: "string \<Rightarrow> byte list" where
  "chars s = map of_char s"

text \<open>The common first part, and the three ways to go on.\<close>

definition line_and_message :: "nat \<Rightarrow> string \<Rightarrow> byte list" where
  "line_and_message line msg = decimal line @ chars '': '' @ chars msg"

definition ping_die :: "nat \<Rightarrow> string \<Rightarrow> string \<Rightarrow> exit" where
  "ping_die line msg err =
     \<lparr>stderr_text = line_and_message line msg @ chars '' '' @ chars err @ [10], exit_status = EXIT_FAILURE\<rparr>"

definition tr_die :: "nat \<Rightarrow> string \<Rightarrow> string \<Rightarrow> exit" where
  "tr_die line msg err =
     \<lparr>stderr_text = line_and_message line msg @ chars '' '' @ chars err @ [10], exit_status = EXIT_FAILURE\<rparr>"

definition sctp_die :: "nat \<Rightarrow> string \<Rightarrow> string \<Rightarrow> exit" where
  "sctp_die line msg err =
     \<lparr>stderr_text = line_and_message line msg @ chars '' '' @ chars err @ [10], exit_status = EXIT_FAILURE\<rparr>"

definition bc_die :: "nat \<Rightarrow> string \<Rightarrow> string \<Rightarrow> exit" where
  "bc_die line msg err =
     \<lparr>stderr_text = line_and_message line msg @ chars '' '' @ chars err @ [10], exit_status = EXIT_FAILURE\<rparr>"

definition ev_die :: "nat \<Rightarrow> string \<Rightarrow> string \<Rightarrow> exit" where
  "ev_die line msg err =
     \<lparr>stderr_text = line_and_message line msg @ chars '' '' @ chars err @ [10], exit_status = EXIT_FAILURE\<rparr>"

text \<open>The echo programs and the raw socket programs put nothing between message and error.\<close>

definition echo_die :: "nat \<Rightarrow> string \<Rightarrow> string \<Rightarrow> exit" where
  "echo_die line msg err =
     \<lparr>stderr_text = line_and_message line msg @ chars err, exit_status = EXIT_FAILURE\<rparr>"

definition raw_die :: "nat \<Rightarrow> string \<Rightarrow> string \<Rightarrow> exit" where
  "raw_die line msg err =
     \<lparr>stderr_text = line_and_message line msg @ chars err, exit_status = EXIT_FAILURE\<rparr>"

text \<open>The daemon does not name the error at all.\<close>

definition daemon_die :: "nat \<Rightarrow> string \<Rightarrow> exit" where
  "daemon_die line msg = \<lparr>stderr_text = line_and_message line msg, exit_status = EXIT_FAILURE\<rparr>"

text \<open>\<open>file\<close> is the name that the compiler was given.\<close>

definition sniff_ERROR :: "string \<Rightarrow> nat \<Rightarrow> string \<Rightarrow> string \<Rightarrow> byte list" where
  "sniff_ERROR file line msg err =
     chars '':: file - '' @ chars file @ chars '', error - '' @ chars err @ chars '', errmsg - '' @ chars msg
       @ chars '', line - '' @ decimal line @ [10]"

definition raw_ERROR :: "string \<Rightarrow> nat \<Rightarrow> string \<Rightarrow> string \<Rightarrow> byte list" where
  "raw_ERROR file line msg err =
     chars '':: file - '' @ chars file @ chars '', error - '' @ chars err @ chars '', errmsg - '' @ chars msg
       @ chars '', line - '' @ decimal line @ [10]"

text \<open>How a program that ended in \<^verbatim>\<open>die\<close> left, given the message at each line of its source.\<close>

fun exit_of :: "(nat \<Rightarrow> exit) \<Rightarrow> event list \<Rightarrow> exit option" where
  "exit_of die [] = None"
| "exit_of die (Die line # tr) = Some (die line)"
| "exit_of die (e # tr) = exit_of die tr"

section \<open>Lemmas\<close>

text \<open>The line can be read back from every text of \<^verbatim>\<open>die\<close>, whatever the message and the error are.\<close>

lemma line_is_named:
  "scan_d (line_and_message line msg @ rest) = Some (int line, chars '': '' @ chars msg @ rest)"
proof -
  have "\<not> is_digit (hd (chars '': '' @ chars msg @ rest))" by (simp add: chars_def is_digit_def)
  then show ?thesis
    using scan_d_decimal [of "chars '': '' @ chars msg @ rest" line] by (simp add: line_and_message_def)
qed

lemmas die_defs = ping_die_def tr_die_def sctp_die_def bc_die_def ev_die_def echo_die_def raw_die_def daemon_die_def

lemma exits_name_line:
  "e \<in> {ping_die line msg err, tr_die line msg err, sctp_die line msg err, bc_die line msg err, ev_die line msg err,
      echo_die line msg err, raw_die line msg err, daemon_die line msg}
   \<Longrightarrow> scan_int (stderr_text e) = Some (int line) \<and> exit_status e = EXIT_FAILURE"
  using line_is_named [of line msg] line_is_named [of line msg "[]"] by (auto simp: die_defs scan_int_def)

text \<open>A program that dies has failed: no trace with a \<^verbatim>\<open>die\<close> leaves with another status.\<close>

lemma exit_of_failure:
  assumes "\<And>line. exit_status (die line) = EXIT_FAILURE" "Die line \<in> set tr"
  shows "\<exists>e. exit_of die tr = Some e \<and> exit_status e = EXIT_FAILURE"
  using assms by (induction die tr rule: exit_of.induct) auto

end
