(* ===== verification/EventStart.thy ===== *)
theory EventStart
  imports Syscalls Multiplex
begin

text \<open>
  The start of select\_poll\_epoll/main.c: the wrappers of the calls, both sockets, and for the epoll
  variant the descriptor of the set. The loops of Multiplex take over with the descriptors that
  the kernel returned.
\<close>

definition ev_socket_create :: "int \<Rightarrow> u16 \<Rightarrow> (int \<Rightarrow> program) \<Rightarrow> program" where
  "ev_socket_create type port k =
     sys (Socket type 0) (\<lambda>r. let sock = ret r in
       if sock < 0 then (\<lambda>_. [Die 43])
       else checked (Bind sock \<lparr>sin_port = htons port, sin_addr = INADDR_ANY\<rparr>) 52 (k sock))"

definition ev_socket_listen :: "int \<Rightarrow> program \<Rightarrow> program" where
  "ev_socket_listen sock = checked (Listen sock 5) 61"

definition ev_socket_close :: "int \<Rightarrow> program \<Rightarrow> program" where
  "ev_socket_close sock = checked (Close sock) 68"

text \<open>The option is the integer 1.\<close>

definition ev_socket_setsockopt :: "int \<Rightarrow> int \<Rightarrow> program \<Rightarrow> program" where
  "ev_socket_setsockopt sock flag = checked (Setsockopt sock 1 flag [1, 0, 0, 0]) 79"

definition ev_start :: "(int \<Rightarrow> int \<Rightarrow> program) \<Rightarrow> program" where
  "ev_start k =
     ev_socket_create SOCK_DGRAM 8000 (\<lambda>udpsock.
     ev_socket_create SOCK_STREAM 8001 (\<lambda>tcpsock.
     ev_socket_setsockopt udpsock 2
     (ev_socket_setsockopt tcpsock 2
     (ev_socket_listen tcpsock (k udpsock tcpsock)))))"

definition ev_epoll :: "(int \<Rightarrow> program) \<Rightarrow> int \<Rightarrow> int \<Rightarrow> program" where
  "ev_epoll k udpsock tcpsock =
     sys (Epoll_Create 10) (\<lambda>r. let epollfd = ret r in
       if epollfd < 0 then (\<lambda>_. [Die 152])
       else checked (Epoll_Add epollfd udpsock) 161
         (checked (Epoll_Add epollfd tcpsock) 165 (k epollfd)))"

section \<open>Lemmas\<close>

text \<open>
  The start of every variant keeps the discipline of descriptors, if what follows does with the
  descriptors that it is given.
\<close>

lemma ev_start_fds:
  assumes "\<And>u t ss. u \<noteq> t \<Longrightarrow> fds_ok {u, t} (k u t ss)"
  shows "fds_ok {} (ev_start k rs)"
  using assms
  by (auto simp: ev_start_def ev_socket_create_def ev_socket_setsockopt_def ev_socket_listen_def Let_def insert_commute
      intro!: fds_ok_sys fds_ok_checked)

text \<open>
  The option that lets an address be used again is set after the bind, on which it then has no
  effect: a trace that sets it has bound the socket before.
\<close>

lemma options_after_bind:
  "options (ev_start (\<lambda>_ _ _. []) rs) \<noteq> [] \<Longrightarrow>
   binds (ev_start (\<lambda>_ _ _. []) rs) =
     [\<lparr>sin_port = htons 8000, sin_addr = INADDR_ANY\<rparr>, \<lparr>sin_port = htons 8001, sin_addr = INADDR_ANY\<rparr>]"
  by (auto simp: ev_start_def ev_socket_create_def ev_socket_setsockopt_def ev_socket_listen_def Let_def
      sys_def checked_def split: list.splits if_splits)

text \<open>
  Start and loop of the select server together: when the kernel accepts every call, the loop is
  entered with the two descriptors that it gave out, and if they fit into a set, exactly they
  are watched then, and both still are after any rounds.
\<close>

lemma ev_start_reaches_loop:
  assumes "fd_in_range u" "fd_in_range t" "\<forall>x \<in> set rounds. \<not> fst x \<and> round_ok (snd x)"
  shows "(\<exists>tr. length tr = 7 \<and> ev_start k (Ret u # Ret 0 # Ret t # Ret 0 # Ret 0 # Ret 0 # Ret 0 # rs) = tr @ k u t rs)
    \<and> (\<exists>w w' b' ess. sel_start t u = Some w \<and> sel_watched w = {t, u}
         \<and> sel_run t u rounds w start_buffers = Some (w', b', ess) \<and> {t, u} \<subseteq> sel_watched w')"
proof
  have "0 \<le> u" "0 \<le> t" using assms(1,2) by (simp_all add: fd_in_range_def)
  then have "ev_start k (Ret u # Ret 0 # Ret t # Ret 0 # Ret 0 # Ret 0 # Ret 0 # rs) =
      [Sys (Socket 2 0) (Ret u), Sys (Bind u \<lparr>sin_port = htons 8000, sin_addr = INADDR_ANY\<rparr>) (Ret 0),
       Sys (Socket 1 0) (Ret t), Sys (Bind t \<lparr>sin_port = htons 8001, sin_addr = INADDR_ANY\<rparr>) (Ret 0),
       Sys (Setsockopt u 1 2 [1, 0, 0, 0]) (Ret 0), Sys (Setsockopt t 1 2 [1, 0, 0, 0]) (Ret 0),
       Sys (Listen t 5) (Ret 0)] @ k u t rs"
    by (simp add: ev_start_def ev_socket_create_def ev_socket_setsockopt_def ev_socket_listen_def Let_def)
  then show "\<exists>tr. length tr = 7 \<and> ev_start k (Ret u # Ret 0 # Ret t # Ret 0 # Ret 0 # Ret 0 # Ret 0 # rs) = tr @ k u t rs"
    by (intro exI conjI [rotated]) (assumption, simp)
  obtain w where w: "sel_start t u = Some w" "sel_ok w" "sel_watched w = {t, u}"
    using sel_start_ok [OF assms(2,1)] by blast
  have "buffers_ok start_buffers" by (simp add: buffers_ok_def start_buffers_def)
  from sel_run_ok [OF assms(3) w(2) this, of t u] w
  show "\<exists>w w' b' ess. sel_start t u = Some w \<and> sel_watched w = {t, u}
      \<and> sel_run t u rounds w start_buffers = Some (w', b', ess) \<and> {t, u} \<subseteq> sel_watched w'" by auto
qed

end
