(* ===== verification/EventVariants.thy ===== *)
theory EventVariants
  imports Multiplex "HOL-Library.Multiset"
begin

text \<open>
  The three variants of the event server against one abstract round: which descriptors are served,
  how, and which are watched afterwards. The order of the descriptors differs (ascending, by
  position in the array, by the kernel's list), so the events are compared as multisets; the
  printed texts, which depend on what the buffers held, are left open.
\<close>

section \<open>The abstract round\<close>

datatype kind = Accepts int | Reads_Udp | Reads int | Ends int

fun kind_of :: "event \<Rightarrow> kind" where
  "kind_of (New_Client fd) = Accepts fd"
| "kind_of (Udp_Text s) = Reads_Udp"
| "kind_of (Tcp_Text fd s) = Reads fd"
| "kind_of (Disconnect fd) = Ends fd"

definition serve_kind :: "int \<Rightarrow> int \<Rightarrow> round \<Rightarrow> int \<Rightarrow> kind" where
  "serve_kind tcp udp r fd =
     (if fd = tcp then Accepts (accepted r) else if fd = udp then Reads_Udp
      else if tcp_in r fd = Some [] then Ends fd else Reads fd)"

definition ending :: "int \<Rightarrow> int \<Rightarrow> round \<Rightarrow> int set" where
  "ending tcp udp r = {fd. fd \<notin> {tcp, udp} \<and> tcp_in r fd = Some []}"

text \<open>What one round does to the watched descriptors, and the kinds of its events.\<close>

definition spec_watched :: "int \<Rightarrow> int \<Rightarrow> round \<Rightarrow> int set \<Rightarrow> int set" where
  "spec_watched tcp udp r W = W - {fd \<in> W. ready r fd \<and> fd \<in> ending tcp udp r}
     \<union> (if tcp \<in> W \<and> ready r tcp then {accepted r} else {})"

definition spec_kinds :: "int \<Rightarrow> int \<Rightarrow> round \<Rightarrow> int set \<Rightarrow> kind multiset" where
  "spec_kinds tcp udp r W = image_mset (serve_kind tcp udp r) (mset_set {fd \<in> W. ready r fd})"

text \<open>A list of descriptors that is served has exactly the abstract effect.\<close>

fun kind_conns :: "kind list \<Rightarrow> conn list" where
  "kind_conns [] = []"
| "kind_conns (Accepts fd # ks) = Opened fd # kind_conns ks"
| "kind_conns (Ends fd # ks) = Closed fd # kind_conns ks"
| "kind_conns (_ # ks) = kind_conns ks"

lemma conns_kinds: "conns es = kind_conns (map kind_of es)"
  by (induction es rule: conns.induct) auto

lemma track_kinds:
  "accepted r \<notin> set L \<Longrightarrow> track (kind_conns (map (serve_kind tcp udp r) L)) W =
     W - {fd \<in> set L. fd \<in> ending tcp udp r} \<union> (if tcp \<in> set L then {accepted r} else {})"
proof (induction L arbitrary: W)
  case (Cons fd L)
  then show ?case by (auto simp: serve_kind_def ending_def)
qed simp

lemma conns_ok_kinds:
  assumes "\<And>W. room W (accepted r)"
  shows "distinct L \<Longrightarrow> set L \<subseteq> W \<Longrightarrow> accepted r \<notin> set L \<Longrightarrow>
    conns_ok room (kind_conns (map (serve_kind tcp udp r) L)) W"
proof (induction L arbitrary: W)
  case (Cons fd L)
  then have "set L \<subseteq> insert (accepted r) W" "set L \<subseteq> W - {fd}" "set L \<subseteq> W" by auto
  with Cons assms show ?case by (auto simp: serve_kind_def)
qed simp

text \<open>The ready ones of the watched descriptors, in any order, give the abstract round.\<close>

lemma served_list:
  assumes "distinct L" "set L = {fd \<in> W. ready r fd}" "accepted r \<notin> W" "map kind_of es = map (serve_kind tcp udp r) L"
  shows "track (conns es) W = spec_watched tcp udp r W" "mset (map kind_of es) = spec_kinds tcp udp r W"
proof -
  have "accepted r \<notin> set L" using assms(2,3) by auto
  then show "track (conns es) W = spec_watched tcp udp r W"
    by (auto simp: conns_kinds assms(4) track_kinds spec_watched_def assms(2))
  show "mset (map kind_of es) = spec_kinds tcp udp r W"
    unfolding spec_kinds_def assms(2) [symmetric] assms(4) mset_map mset_set_set [OF assms(1)] ..
qed

section \<open>select\<close>

lemma sel_serve_kind: "sel_serve tcp udp r i w b = Some (w', b', e) \<Longrightarrow> kind_of e = serve_kind tcp udp r i"
  by (auto simp: sel_serve_def serve_kind_def recv_udp_def recv_tcp_def split: if_splits bind_splits)

lemma sel_for_kinds:
  "sel_for tcp udp r ts i w b = Some (w', b', es) \<Longrightarrow>
   \<exists>m. i \<le> m \<and> m \<le> max i FD_SETSIZE
     \<and> map kind_of es = map (serve_kind tcp udp r \<circ> int) (filter ((!) ts) [i ..< m])"
proof (induction tcp udp r ts i w b arbitrary: w' b' es rule: sel_for.induct)
  case (1 tcp udp r ts i w b)
  show ?case
  proof (cases "int i \<le> max_fd w \<and> i < FD_SETSIZE")
    case False
    then have "es = []" using "1.prems" by (subst (asm) sel_for.simps) (auto split: if_splits)
    then show ?thesis by (intro exI [of _ i]) simp
  next
    case True
    have up: "[i ..< m] = i # [i + 1 ..< m]" if "i + 1 \<le> m" for m using that by (simp add: upt_conv_Cons)
    show ?thesis
    proof (cases "ts ! i")
      case F: False
      with True "1.prems" have "sel_for tcp udp r ts (i + 1) w b = Some (w', b', es)"
        by (subst (asm) sel_for.simps) simp
      from "1.IH"(1) [OF _ _ F this] True obtain m where m: "i + 1 \<le> m" "m \<le> max (i + 1) FD_SETSIZE"
        "map kind_of es = map (serve_kind tcp udp r \<circ> int) (filter ((!) ts) [i + 1 ..< m])" by auto
      with F True show ?thesis by (intro exI [of _ m]) (simp add: up)
    next
      case T: True
      with True "1.prems" obtain w1 b1 e es1 where e: "sel_serve tcp udp r (int i) w b = Some (w1, b1, e)"
        "sel_for tcp udp r ts (i + 1) w1 b1 = Some (w', b', es1)" "es = e # es1"
        by (subst (asm) sel_for.simps) (auto split: option.splits prod.splits)
      from "1.IH"(2) [OF _ _ _ e(1) refl refl e(2)] True T obtain m where m: "i + 1 \<le> m" "m \<le> max (i + 1) FD_SETSIZE"
        "map kind_of es1 = map (serve_kind tcp udp r \<circ> int) (filter ((!) ts) [i + 1 ..< m])" by auto
      with T True e sel_serve_kind [OF e(1)] show ?thesis by (intro exI [of _ m]) (simp add: up)
    qed
  qed
qed


lemma sel_round_refines:
  assumes "round_ok r" "sel_ok w" "buffers_ok b" "{tcp, udp} \<subseteq> sel_watched w" "accepted r \<notin> sel_watched w"
  shows "\<exists>w' b' es. sel_round tcp udp False r w b = Some (w', b', es) \<and> sel_ok w' \<and> buffers_ok b'
    \<and> sel_watched w' = spec_watched tcp udp r (sel_watched w)
    \<and> mset (map kind_of es) = spec_kinds tcp udp r (sel_watched w)"
proof -
  define ts where "ts = map (\<lambda>i. rset w ! i \<and> int i \<le> max_fd w \<and> ready r (int i)) [0 ..< FD_SETSIZE]"
  define L where "L = filter ((!) ts) [0 ..< FD_SETSIZE]"
  obtain w' b' es where es: "sel_round tcp udp False r w b = Some (w', b', es)" "sel_ok w'" "buffers_ok b'"
    "sel_watched w' = track (conns es) (sel_watched w)" "length es = card {fd \<in> sel_watched w. ready r fd}"
    using sel_round_ok [OF assms(1-4)] by blast
  have t: "ts ! j \<longleftrightarrow> int j \<in> sel_watched w \<and> ready r (int j)" if "j < FD_SETSIZE" for j
    using that assms(2) by (auto simp: sel_watched_def sel_ok_def fd_in_range_def ts_def)
  then have len: "length L = length es" unfolding es(5) L_def by (rule ready_count)
  have set: "set (map int L) = {fd \<in> sel_watched w. ready r fd}"
  proof -
    have "set L = {j. j < FD_SETSIZE \<and> int j \<in> sel_watched w \<and> ready r (int j)}" using t by (auto simp: L_def)
    then show ?thesis using sel_watched_range [of w "ready r"] by (simp only: list.set_map)
  qed
  have "sel_for tcp udp r ts 0 w b = Some (w', b', es)"
    using es(1) sel_round_for [OF assms(2), of tcp udp r b] by (simp add: ts_def)
  from sel_for_kinds [OF this] obtain m where m: "m \<le> FD_SETSIZE"
    "map kind_of es = map (serve_kind tcp udp r \<circ> int) (filter ((!) ts) [0 ..< m])" by auto
  have "L = filter ((!) ts) [0 ..< m] @ filter ((!) ts) [m ..< FD_SETSIZE]"
    using upt_add_eq_append [of 0 m "FD_SETSIZE - m"] m(1) by (simp only: L_def le0 le_add_diff_inverse flip: filter_append)
  moreover from this have "filter ((!) ts) [m ..< FD_SETSIZE] = []"
    using len arg_cong [OF m(2), of length] by simp
  ultimately have kinds: "map kind_of es = map (serve_kind tcp udp r) (map int L)" using m(2) by simp
  have "distinct (map int L)" by (simp add: L_def distinct_map)
  from served_list [OF this set assms(5) kinds] show ?thesis using es(1-4) by blast
qed

section \<open>epoll\<close>

lemma epoll_for_kinds:
  assumes "tcp \<noteq> udp" "round_ok r"
  shows "buffers_ok b \<Longrightarrow> \<exists>l' b' es. epoll_for tcp udp r fds l b = Some (l', b', es) \<and> buffers_ok b'
    \<and> map kind_of es = map (serve_kind tcp udp r) fds
    \<and> run_conns (\<lambda>fd l. Some (epoll_add fd l)) (\<lambda>fd l. Some (removeAll fd l)) (conns es) l = Some l'"
proof (induction fds arbitrary: l b)
  case (Cons fd fds)
  obtain b1 s1 where u: "recv_udp r b = Some (b1, Udp_Text s1)" "buffers_ok b1"
    using recv_ok(1) [OF Cons.prems assms(2)] by blast
  obtain b2 s2 where t: "recv_tcp r fd b = Some (b2, Tcp_Text fd s2)" "buffers_ok b2"
    using recv_ok(2) [OF Cons.prems assms(2)] by blast
  consider "fd = udp" | "fd = tcp" | "fd \<notin> {tcp, udp}" "tcp_in r fd = Some []"
    | "fd \<notin> {tcp, udp}" "tcp_in r fd \<noteq> Some []" by blast
  then show ?case
  proof cases
    case 1
    with Cons.IH [OF u(2), of l] u(1) assms(1) show ?thesis by (fastforce simp: serve_kind_def)
  next
    case 2
    with Cons.IH [OF Cons.prems, of "epoll_add (accepted r) l"] assms(1) show ?thesis
      by (fastforce simp: serve_kind_def)
  next
    case 3
    with Cons.IH [OF Cons.prems, of "removeAll fd l"] show ?thesis by (fastforce simp: serve_kind_def)
  next
    case 4
    with Cons.IH [OF t(2), of l] t(1) show ?thesis by (fastforce simp: serve_kind_def)
  qed
qed simp

lemma epoll_round_refines:
  assumes "tcp \<noteq> udp" "round_ok r" "buffers_ok b" "distinct l" "accepted r \<notin> set l"
    and "card {fd \<in> set l. ready r fd} \<le> 10"
  shows "\<exists>l' b' es. epoll_round tcp udp r l b = Some (l', b', es) \<and> distinct l' \<and> buffers_ok b'
    \<and> set l' = spec_watched tcp udp r (set l) \<and> mset (map kind_of es) = spec_kinds tcp udp r (set l)"
proof -
  let ?L = "filter (ready r) l"
  have L: "distinct ?L" "set ?L = {fd \<in> set l. ready r fd}" using assms(4) by auto
  then have "length ?L \<le> 10" using assms(6) distinct_card [OF L(1)] by simp
  then have "epoll_round tcp udp r l b = epoll_for tcp udp r ?L l b" by (simp add: epoll_round_def)
  with epoll_for_kinds [OF assms(1-3), of ?L l] obtain l' b' es where
    es: "epoll_round tcp udp r l b = Some (l', b', es)" "buffers_ok b'"
    "map kind_of es = map (serve_kind tcp udp r) ?L"
    "run_conns (\<lambda>fd l. Some (epoll_add fd l)) (\<lambda>fd l. Some (removeAll fd l)) (conns es) l = Some l'" by auto
  have "0 \<le> accepted r" using assms(2) by (simp add: round_ok_def fd_in_range_def)
  then have "conns_ok (\<lambda>W fd. 0 \<le> fd) (conns es) (set l)"
    unfolding conns_kinds es(3) using L assms(5) by (intro conns_ok_kinds) auto
  from epoll.history [OF assms(4) this] es(4) have "distinct l'" "set l' = track (conns es) (set l)" by auto
  then show ?thesis using es(1,2) served_list [OF L assms(5) es(3)] by auto
qed

section \<open>poll\<close>

text \<open>The elements from the index \<open>i\<close> on that are in use, with their \<^verbatim>\<open>revents\<close>.\<close>

definition in_use :: "nat \<Rightarrow> pollset \<Rightarrow> (int \<times> bool) list" where
  "in_use i p = drop i (take (nfds p) (pfds p))"

lemma in_use_step:
  assumes "i < nfds p" "nfds p \<le> length (pfds p)"
  shows "in_use i p = pfds p ! i # in_use (i + 1) p"
  using assms Cons_nth_drop_Suc [of i "take (nfds p) (pfds p)"] by (simp add: in_use_def)

lemma in_use_add:
  assumes "i \<le> nfds p" "poll_add fd p = Some p'"
  shows "in_use i p' = in_use i p @ [(fd, snd (pfds p ! nfds p))]" "nfds p' = nfds p + 1"
    "length (pfds p') = length (pfds p)" "\<And>j. nfds p' \<le> j \<Longrightarrow> pfds p' ! j = pfds p ! j"
  using assms by (auto simp: poll_add_def in_use_def take_Suc_conv_app_nth split: if_splits)

text \<open>The rest of the loop has room for the connections it accepts, and none of its readers ends.\<close>

definition poll_fits :: "int \<Rightarrow> int \<Rightarrow> round \<Rightarrow> nat \<Rightarrow> pollset \<Rightarrow> bool" where
  "poll_fits tcp udp r i p \<longleftrightarrow> length (pfds p) = POLL_MAX
     \<and> nfds p + length (filter (\<lambda>x. fst x = tcp \<and> snd x) (in_use i p)) \<le> POLL_MAX
     \<and> (\<forall>j. nfds p \<le> j \<longrightarrow> j < POLL_MAX \<longrightarrow> \<not> snd (pfds p ! j))
     \<and> (\<forall>x \<in> set (in_use i p). snd x \<longrightarrow> fst x \<notin> ending tcp udp r)"

lemma poll_fits_next:
  assumes "poll_fits tcp udp r i p" "i < nfds p"
  shows "poll_fits tcp udp r (i + 1) p"
proof -
  have "in_use i p = pfds p ! i # in_use (i + 1) p"
    using assms by (intro in_use_step) (auto simp: poll_fits_def)
  with assms show ?thesis by (auto simp: poll_fits_def split: if_splits)
qed

lemma poll_fits_add:
  assumes "poll_fits tcp udp r i p" "i < nfds p" "pfds p ! i = (tcp, True)"
  obtains p' where "poll_add fd p = Some p'" "poll_fits tcp udp r (i + 1) p'"
    "in_use (i + 1) p' = in_use (i + 1) p @ [(fd, False)]"
proof -
  have use: "in_use i p = (tcp, True) # in_use (i + 1) p"
    using assms in_use_step [of i p] by (auto simp: poll_fits_def)
  then have room: "nfds p < POLL_MAX" "length (pfds p) = POLL_MAX" using assms(1) by (auto simp: poll_fits_def)
  then obtain p' where p': "poll_add fd p = Some p'" by (auto simp: poll_add_def)
  have le: "i + 1 \<le> nfds p" using assms(2) by simp
  have "\<not> snd (pfds p ! nfds p)" using assms(1) room by (auto simp: poll_fits_def)
  note add = in_use_add [OF le p', unfolded this]
  have "in_use (i + 1) p' = in_use (i + 1) p @ [(fd, False)]"
    using add(1) \<open>\<not> snd (pfds p ! nfds p)\<close> by simp
  moreover from this have "poll_fits tcp udp r (i + 1) p'"
    using assms(1) add(2-4) by (auto simp: poll_fits_def use)
  ultimately show ?thesis using that p' by blast
qed

lemma poll_for_kinds:
  assumes "tcp \<noteq> udp" "round_ok r"
  shows "POLL_MAX - i \<le> k \<Longrightarrow> poll_fits tcp udp r i p \<Longrightarrow> buffers_ok b \<Longrightarrow>
    \<exists>p' b' es. poll_for tcp udp r i p b = Some (p', b', es) \<and> buffers_ok b'
      \<and> map kind_of es = map (serve_kind tcp udp r) (map fst (filter snd (in_use i p)))
      \<and> run_conns poll_add poll_del (conns es) p = Some p'"
proof (induction k arbitrary: i p b)
  case 0
  then have "\<not> i < nfds p" by (auto simp: poll_fits_def)
  with 0 show ?case by (subst poll_for.simps) (simp add: in_use_def)
next
  case (Suc k)
  show ?case
  proof (cases "i < nfds p")
    case False
    with Suc.prems show ?thesis by (subst poll_for.simps) (simp add: in_use_def)
  next
    case True
    obtain fd rev where x: "pfds p ! i = (fd, rev)" by fastforce
    have len: "i < length (pfds p)" "i < POLL_MAX" "nfds p \<le> length (pfds p)" "POLL_MAX - (i + 1) \<le> k"
      using True Suc.prems(1,2) by (auto simp: poll_fits_def)
    have use: "in_use i p = (fd, rev) # in_use (i + 1) p" using in_use_step [OF True len(3)] x by simp
    note next' = poll_fits_next [OF Suc.prems(2) True]
    have quiet: "rev \<Longrightarrow> fd \<notin> ending tcp udp r" using Suc.prems(2) use by (auto simp: poll_fits_def)
    obtain b1 s1 where u: "recv_udp r b = Some (b1, Udp_Text s1)" "buffers_ok b1"
      using recv_ok(1) [OF Suc.prems(3) assms(2)] by blast
    obtain b2 s2 where t: "recv_tcp r fd b = Some (b2, Tcp_Text fd s2)" "buffers_ok b2"
      using recv_ok(2) [OF Suc.prems(3) assms(2)] by blast
    note body = poll_for.simps [of tcp udp r i p b]
    consider "\<not> rev" | "rev" "fd = tcp" | "rev" "fd = udp" | "rev" "fd \<notin> {tcp, udp}" by blast
    then show ?thesis
    proof cases
      case 1
      with Suc.IH [OF len(4) next' Suc.prems(3)] True len x show ?thesis by (simp add: body use)
    next
      case 2
      then obtain p1 where p1: "poll_add (accepted r) p = Some p1" "poll_fits tcp udp r (i + 1) p1"
        "in_use (i + 1) p1 = in_use (i + 1) p @ [(accepted r, False)]"
        using poll_fits_add [OF Suc.prems(2) True] x by metis
      with Suc.IH [OF len(4) p1(2) Suc.prems(3)] 2 True len x show ?thesis
        by (fastforce simp: body use serve_kind_def)
    next
      case 3
      with Suc.IH [OF len(4) next' u(2)] u(1) True len x assms(1) show ?thesis
        by (fastforce simp: body use serve_kind_def)
    next
      case 4
      with Suc.IH [OF len(4) next' t(2)] t(1) quiet True len x show ?thesis
        by (fastforce simp: body use serve_kind_def ending_def)
    qed
  qed
qed

lemma quiet_conns:
  "distinct L \<Longrightarrow> set L \<inter> ending tcp udp r = {} \<Longrightarrow>
   kind_conns (map (serve_kind tcp udp r) L) = (if tcp \<in> set L then [Opened (accepted r)] else [])"
  by (induction L) (auto simp: serve_kind_def ending_def)

lemma filter_both: "length (filter (\<lambda>x. P x \<and> Q x) xs) \<le> length (filter P xs)"
  by (induction xs) auto

text \<open>What \<^verbatim>\<open>poll\<close> stores for the elements in use.\<close>

abbreviation (input) polled :: "round \<Rightarrow> pollset \<Rightarrow> pollset" where
  "polled r p \<equiv> p\<lparr>pfds := map (\<lambda>(fd, _). (fd, ready r fd)) (take (nfds p) (pfds p)) @ drop (nfds p) (pfds p)\<rparr>"

lemma polled_props:
  assumes "poll_ok p"
  shows "in_use 0 (polled r p) = map (\<lambda>(fd, _). (fd, ready r fd)) (take (nfds p) (pfds p))"
    "map fst (in_use 0 (polled r p)) = map fst (take (nfds p) (pfds p))"
    "map fst (filter snd (in_use 0 (polled r p))) = filter (ready r) (map fst (take (nfds p) (pfds p)))"
    "poll_ok (polled r p)" "poll_watched (polled r p) = poll_watched p"
    "length (filter (\<lambda>x. fst x = tcp \<and> snd x) (in_use 0 (polled r p))) \<le> 1"
proof -
  let ?fds = "map fst (take (nfds p) (pfds p))"
  have len: "length (take (nfds p) (pfds p)) = nfds p" using assms by (simp add: poll_ok_def)
  then show use: "in_use 0 (polled r p) = map (\<lambda>(fd, _). (fd, ready r fd)) (take (nfds p) (pfds p))"
    by (simp add: in_use_def)
  have fst: "map fst (map (\<lambda>(fd, _). (fd, ready r fd)) xs) = map fst xs" for xs :: "(int \<times> bool) list"
    by (simp add: case_prod_beta)
  show "map fst (in_use 0 (polled r p)) = ?fds" unfolding use by (rule fst)
  show "map fst (filter snd (in_use 0 (polled r p))) = filter (ready r) ?fds"
    unfolding use by (simp add: filter_map o_def case_prod_beta)
  have names: "map fst (take (nfds (polled r p)) (pfds (polled r p))) = ?fds"
    using len by (simp add: fst del: map_map list.map_comp)
  then show "poll_watched (polled r p) = poll_watched p" by (simp only: poll_watched_def)
  show "poll_ok (polled r p)" using assms len names by (simp add: poll_ok_def del: map_map list.map_comp)
  have "length (filter (\<lambda>x. fst x = tcp \<and> snd x) (in_use 0 (polled r p))) \<le> length (filter (\<lambda>fd. fd = tcp) ?fds)"
    unfolding use by (simp add: filter_map o_def case_prod_beta filter_both)
  also have "\<dots> = card ({tcp} \<inter> set ?fds)"
    using assms by (subst distinct_length_filter) (auto simp: poll_ok_def intro: arg_cong [of _ _ card])
  also have "\<dots> \<le> 1" using card_mono [of "{tcp}" "{tcp} \<inter> set ?fds"] by simp
  finally show "length (filter (\<lambda>x. fst x = tcp \<and> snd x) (in_use 0 (polled r p))) \<le> 1" .
qed

lemma poll_round_refines:
  assumes "tcp \<noteq> udp" "round_ok r" "buffers_ok b" "poll_ok p" "accepted r \<notin> poll_watched p"
    and "card (poll_watched p) < POLL_MAX - 1" "{fd \<in> poll_watched p. ready r fd} \<inter> ending tcp udp r = {}"
    and "\<forall>j. nfds p \<le> j \<longrightarrow> j < POLL_MAX \<longrightarrow> \<not> snd (pfds p ! j)"
  shows "\<exists>p' b' es. poll_round tcp udp False r p b = Some (p', b', es) \<and> poll_ok p' \<and> buffers_ok b'
    \<and> poll_watched p' = spec_watched tcp udp r (poll_watched p)
    \<and> mset (map kind_of es) = spec_kinds tcp udp r (poll_watched p)"
proof -
  let ?L = "filter (ready r) (map fst (take (nfds p) (pfds p)))"
  note props = polled_props [OF assms(4)]
  have L: "distinct ?L" "set ?L = {fd \<in> poll_watched p. ready r fd}"
    using assms(4) by (auto simp: poll_ok_def poll_watched_def)
  show ?thesis
  proof (cases "\<forall>x \<in> set (take (nfds p) (pfds p)). \<not> ready r (fst x)")
    case True
    then have "poll_round tcp udp False r p b = Some (polled r p, b, [])" by (simp add: poll_round_def)
    moreover have "?L = []" using True by (auto simp: filter_empty_conv)
    ultimately show ?thesis using served_list [OF L assms(5), of "[]" tcp udp] props(4,5) assms(3) by simp
  next
    case False
    then have run: "poll_round tcp udp False r p b = poll_for tcp udp r 0 (polled r p) b"
      by (auto simp: poll_round_def Let_def)
    have "poll_fits tcp udp r 0 (polled r p)"
      using props(6) [of tcp r] assms(4,7,8) by (auto simp: poll_fits_def poll_ok_def props(1) poll_watched_def nth_append)
    from poll_for_kinds [OF assms(1,2) _ this assms(3), of POLL_MAX] obtain p' b' es where
      es: "poll_round tcp udp False r p b = Some (p', b', es)" "buffers_ok b'"
      "map kind_of es = map (serve_kind tcp udp r) ?L"
      "run_conns poll_add poll_del (conns es) (polled r p) = Some p'"
      unfolding run props(3) by auto
    have "conns es = (if tcp \<in> set ?L then [Opened (accepted r)] else [])"
      unfolding conns_kinds es(3) using L assms(7) by (intro quiet_conns) simp_all
    then have "conns_ok (\<lambda>W fd. fd \<notin> W \<and> card W < POLL_MAX - 1) (conns es) (poll_watched (polled r p))"
      using assms(5,6) by (simp add: props(5))
    from poll.history [OF props(4) this] es(4) have "poll_ok p'" "poll_watched p' = track (conns es) (poll_watched p)"
      by (auto simp: props(5))
    then show ?thesis using es(1,2) served_list [OF L assms(5) es(3)] by auto
  qed
qed

section \<open>Properties\<close>


lemma poll_start_eq:
  "poll_start 4 3 (replicate 1024 (-1, False)) = \<lparr>pfds = (4, False) # (3, False) # replicate 1022 (-1, False), nfds = 2\<rparr>"
  using replicate_add [of 2 1022 "(-1 :: int, False)"] by (simp add: poll_start_def numeral_2_eq_2)

lemma variants_agree_start:
  "round_ok (example_round 4)" "buffers_ok start_buffers" "\<exists>w. sel_start 4 3 = Some w \<and> sel_ok w \<and> sel_watched w = {4, 3}"
  "poll_ok (poll_start 4 3 (replicate 1024 (-1, False)))"
  "poll_watched (poll_start 4 3 (replicate 1024 (-1, False))) = {4, 3}"
  "\<forall>j. nfds (poll_start 4 3 (replicate 1024 (-1, False))) \<le> j \<longrightarrow> j < POLL_MAX
     \<longrightarrow> \<not> snd (pfds (poll_start 4 3 (replicate 1024 (-1, False))) ! j)"
  "accepted (example_round 4) \<notin> {4, 3}" "{fd \<in> {4, 3}. ready (example_round 4) fd} = {4}"
  "{4} \<inter> ending 4 3 (example_round 4) = {}" "spec_watched 4 3 (example_round 4) {4, 3} = {3, 4, 7}"
proof -
  have two: "take 2 (x # y # xs) = [x, y]" for x y :: "int \<times> bool" and xs by (simp add: numeral_2_eq_2)
  show "poll_ok (poll_start 4 3 (replicate 1024 (-1, False)))"
    "poll_watched (poll_start 4 3 (replicate 1024 (-1, False))) = {4, 3}"
    unfolding poll_start_eq poll_ok_def poll_watched_def pollset.simps two by simp_all
  show "\<forall>j. nfds (poll_start 4 3 (replicate 1024 (-1, False))) \<le> j \<longrightarrow> j < POLL_MAX
     \<longrightarrow> \<not> snd (pfds (poll_start 4 3 (replicate 1024 (-1, False))) ! j)"
    unfolding poll_start_eq pollset.simps by (simp add: nth_Cons')
  show "\<exists>w. sel_start 4 3 = Some w \<and> sel_ok w \<and> sel_watched w = {4, 3}"
    by (rule sel_start_ok) (simp_all add: fd_in_range_def)
qed (auto simp: example_round_ok buffers_ok_def start_buffers_def ending_def spec_watched_def)


end
