(* ===== verification/TimeClient.thy ===== *)
theory TimeClient
  imports QueueServer Syscalls
begin

text \<open>
  The client of udp\_client\_server/main.c. The length of the sender's address that it passes to
  \<^verbatim>\<open>recvfrom\<close> is the number 16 in place of a pointer, so the call fails after the data has
  been copied; the client does not look at the result. \<open>rounds\<close> is the number of times that
  \<open>running\<close> is still set when the loop tests it; a signal clears it.
\<close>

fun time_client_loop :: "nat \<Rightarrow> int \<Rightarrow> byte list \<Rightarrow> sockaddr \<Rightarrow> program \<Rightarrow> program" where
  "time_client_loop 0 sock buf addr k rs = k rs"
| "time_client_loop (Suc rounds) sock buf addr k rs =
     Sleep 1 # sys (Sendto sock buf addr) (\<lambda>_. sys (Recv sock MSG_SIZE) (\<lambda>r rs.
       let (_, buf) = recv_into MSG_SIZE buf r in
       print_s '''' buf (time_client_loop rounds sock (replicate MSG_SIZE 0) addr k rs))) rs"

definition time_client :: "nat \<Rightarrow> u16 \<Rightarrow> program" where
  "time_client rounds port =
     sys (Socket SOCK_DGRAM 0) (\<lambda>r. let sock = ret r in
       time_client_loop rounds sock (replicate MSG_SIZE 0)
         \<lparr>sin_port = htons port, sin_addr = htonl INADDR_ANY\<rparr>
         (sys (Close sock) (\<lambda>_ _. [])))"

section \<open>The server around its threads\<close>

text \<open>
  Before the threads run the server creates its queues, under keys made of the letters from 'a' on,
  and its socket; when they have been joined it removes the queues and closes the socket. \<open>threads\<close>
  is what happens in between (QueueServer).
\<close>

abbreviation (input) MAX_QUEUES :: nat where "MAX_QUEUES \<equiv> 2"

fun time_server_queues :: "nat \<Rightarrow> int list \<Rightarrow> (int list \<Rightarrow> program) \<Rightarrow> program" where
  "time_server_queues 0 qids k = k qids"
| "time_server_queues (Suc n) qids k =
     sys (Msgget (97 + length qids)) (\<lambda>r. time_server_queues n (qids @ [ret r]) k)"

definition time_server_socket :: "u16 \<Rightarrow> (int \<Rightarrow> program) \<Rightarrow> program" where
  "time_server_socket port k =
     sys (Socket SOCK_DGRAM 0) (\<lambda>r. let serverSock = ret r in
       sys (Setsockopt serverSock 1 20 ([1, 0, 0, 0, 0, 0, 0, 0] @ replicate 8 0)) (\<lambda>_.
       sys (Bind serverSock \<lparr>sin_port = htons port, sin_addr = htonl INADDR_ANY\<rparr>) (\<lambda>_. k serverSock)))"

fun time_server_close :: "int list \<Rightarrow> int \<Rightarrow> program" where
  "time_server_close [] serverSock = sys (Close serverSock) (\<lambda>_ _. [])"
| "time_server_close (q # qids) serverSock = sys (Msgctl_Rmid q) (\<lambda>_. time_server_close qids serverSock)"

definition time_server :: "(int list \<Rightarrow> int \<Rightarrow> program \<Rightarrow> program) \<Rightarrow> u16 \<Rightarrow> program" where
  "time_server threads port =
     time_server_queues MAX_QUEUES [] (\<lambda>qids. time_server_socket port (\<lambda>serverSock.
       threads qids serverSock (time_server_close qids serverSock)))"

text \<open>The handler of both programs: \<open>running\<close> is cleared, another signal ends the process.\<close>

definition time_signal_handler :: "int \<Rightarrow> 'q server \<Rightarrow> 'q server option" where
  "time_signal_handler signo s = (if signo = 2 \<or> signo = 15 then Some (s\<lparr>running := False\<rparr>) else None)"

section \<open>Lemmas\<close>

lemma cstr_prefix: "terminated m \<Longrightarrow> cstr (m @ xs) = cstr m"
  by (induction m) auto

text \<open>The datagrams that bring the messages \<open>ms\<close>, one for each request.\<close>

definition deliveries :: "sockaddr \<Rightarrow> byte list list \<Rightarrow> reply list" where
  "deliveries a ms = concat (map (\<lambda>m. [Ret 256, Data m a]) ms)"

lemma time_client_loop_prints:
  assumes "\<forall>m \<in> set ms. answer m" "length buf = 256"
  shows "\<exists>tr. time_client_loop (length ms) sock buf addr k (deliveries a ms @ rs) = tr @ k rs
    \<and> prints tr = map cstr ms \<and> defined tr
    \<and> sends tr = (if ms = [] then [] else (buf, Some addr) # replicate (length ms - 1) (replicate 256 0, Some addr))"
  using assms
proof (induction ms arbitrary: buf)
  case Nil
  then show ?case by (simp add: deliveries_def)
next
  case (Cons m ms)
  then have m: "length m = 256" "terminated m" by (simp_all add: answer_def)
  obtain tr where tr: "time_client_loop (length ms) sock (replicate 256 0) addr k (deliveries a ms @ rs) = tr @ k rs"
    "prints tr = map cstr ms" "defined tr"
    "sends tr = replicate (length ms) (replicate 256 0, Some addr)"
    using Cons.IH [of "replicate 256 0"] Cons.prems by (cases ms) auto
  let ?tr = "Sleep 1 # Sys (Sendto sock buf addr) (Ret 256) # Sys (Recv sock 256) (Data m a) # Printf '''' (cstr m) # tr"
  have "time_client_loop (length (m # ms)) sock buf addr k (deliveries a (m # ms) @ rs) = ?tr @ k rs"
    using m tr(1) Cons.prems by (simp add: deliveries_def print_s_def cstr_prefix)
  then show ?case using tr(2-4) by (intro exI [of _ ?tr]) (simp)
qed

text \<open>
  Client and server together: from any reachable state of the server, a client that receives the
  datagrams which the server sent to its address prints each of them, with the text of the time
  in front, stays inside its buffer, and closes its socket.
\<close>

lemma time_answers_printed:
  assumes "message_queue q msgsnd msgrcv contents" "(server_step msgsnd msgrcv)\<^sup>*\<^sup>* (server_start q) s"
    and ms_def: "ms = map snd (filter (\<lambda>x. fst x = a) (sent s))"
  shows "prints (time_client (length ms) 8000 (Ret 3 # deliveries b ms @ [Ret 0])) = map cstr ms
    \<and> defined (time_client (length ms) 8000 (Ret 3 # deliveries b ms @ [Ret 0]))
    \<and> (\<forall>m \<in> set ms. take 7 (cstr m) = time_prefix)"
proof -
  have "\<forall>x \<in> set (sent s). answer (snd x)"
    using message_queue.reachable_ok [OF assms(1,2)] by (simp add: server_ok_def)
  then have ms: "\<forall>m \<in> set ms. answer m" by (auto simp: ms_def)
  have prints_append: "prints (t @ u) = prints t @ prints u" for t u by (induction t rule: prints.induct) auto
  have "take 7 (cstr m) = time_prefix" if "answer m" for m
  proof -
    have len: "length time_prefix = 7" by (simp add: time_prefix_def)
    have "take 7 m = time_prefix" using that unfolding answer_def len by blast
    then have "m = time_prefix @ drop 7 m" using append_take_drop_id [of 7 m] by simp
    moreover have "cstr (time_prefix @ xs) = time_prefix @ cstr xs" for xs by (simp add: time_prefix_def)
    ultimately show ?thesis by (metis len append_eq_conv_conj)
  qed
  then have head: "\<forall>m \<in> set ms. take 7 (cstr m) = time_prefix" using ms by blast
  let ?addr = "\<lparr>sin_port = htons 8000, sin_addr = htonl INADDR_ANY\<rparr>"
  obtain tr where tr: "time_client_loop (length ms) 3 (replicate 256 0) ?addr
      (sys (Close 3) (\<lambda>_ _. [])) (deliveries b ms @ [Ret 0]) = tr @ [Sys (Close 3) (Ret 0)]"
    "prints tr = map cstr ms" "defined tr"
    using time_client_loop_prints [OF ms, of "replicate 256 0" 3 ?addr "sys (Close 3) (\<lambda>_ _. [])" b "[Ret 0]"] by auto
  then have "time_client (length ms) 8000 (Ret 3 # deliveries b ms @ [Ret 0]) =
      Sys (Socket SOCK_DGRAM 0) (Ret 3) # tr @ [Sys (Close 3) (Ret 0)]"
    by (simp add: time_client_def)
  then show ?thesis using tr(2,3) head by (simp add: prints_append)
qed


text \<open>
  What the server creates it removes: when the threads come to their end, exactly the queues that were
  created are removed, in the same order, and the socket is closed.
\<close>

fun removed :: "event list \<Rightarrow> int list" where
  "removed [] = []"
| "removed (Sys (Msgctl_Rmid q) _ # t) = q # removed t"
| "removed (_ # t) = removed t"

text \<open>What the threads do with the socket: they receive, send and print.\<close>

fun serves :: "int \<Rightarrow> event \<Rightarrow> bool" where
  "serves sock (Sys (Recv s _) _) = (s = sock)"
| "serves sock (Sys (Sendto s _ _) _) = (s = sock)"
| "serves sock (Printf _ _) = True"
| "serves sock _ = False"

lemma serves_append:
  "list_all (serves sock) tr \<Longrightarrow> fds_ok {sock} (tr @ u) = fds_ok {sock} u
    \<and> fds_left {sock} (tr @ u) = fds_left {sock} u \<and> removed (tr @ u) = removed u"
proof (induction tr)
  case (Cons e tr)
  then show ?case by (cases "(sock, e)" rule: serves.cases) auto
qed simp

lemma time_server_cleans:
  assumes "\<And>qids k rs. threads qids sock k (us @ rs) = tr @ k rs" "list_all (serves sock) tr" "0 \<le> sock"
  shows "removed (time_server threads 8005 ([Ret q0, Ret q1, Ret sock, Ret 0, Ret 0] @ us @ [Ret 0, Ret 0, Ret 0])) = [q0, q1]
    \<and> fds_ok {} (time_server threads 8005 ([Ret q0, Ret q1, Ret sock, Ret 0, Ret 0] @ us @ [Ret 0, Ret 0, Ret 0]))
    \<and> fds_left {} (time_server threads 8005 ([Ret q0, Ret q1, Ret sock, Ret 0, Ret 0] @ us @ [Ret 0, Ret 0, Ret 0])) = {}"
  using assms(2,3)
  by (simp add: time_server_def time_server_socket_def numeral_2_eq_2 assms(1) serves_append Let_def)

text \<open>A signal is a step of the server.\<close>

lemma time_signal_is_step: "time_signal_handler signo s = Some s' \<Longrightarrow> server_step msgsnd msgrcv s s'"
  by (auto simp: time_signal_handler_def intro: server_step.Signal split: if_splits)

end
