(* ===== verification/Spec2Isabelle.thy ===== *)
theory Spec2Isabelle
  imports Checksum DnsFormat DnsTraffic CharDevice ProcFs Shadow RtNetlink FileManagerMain FileCopy CopyThreads Multiplex QueueServer Icmp IcmpMain EchoServers CastPrograms SnifferFormat RawSocket Processes Errors EventStart EventVariants TimeClient
begin

text \<open>
  \<^bold>\<open>eltex: a collection of C programs for Linux\<close>

  The repository holds some twenty independent programs: kernel modules (core/), network programs
  (ping, traceroute, raw\_socket, sniffer, the UDP, TCP, SCTP, broadcast and multicast programs), an
  event server with three ways to wait (select\_poll\_epoll), a time server with worker threads
  (udp\_client\_server), a file manager (text\_manager), and two programs about processes (daemon,
  pipe). They share no code, but they share what they do: packets as bytes with Internet
  checksums, C strings in fixed buffers, user memory behind kernel routines, and calls of the
  kernel. The theories follow these layers.

  \<^bold>\<open>How C is modelled.\<close> The machine is a little-endian 64 bit Linux. An object in memory is a list of bytes;
  loads and stores check their bounds. Behaviour that C leaves undefined (an access outside the
  object, a missing terminator, an overflow of a signed number, a null pointer) is \<^const>\<open>None\<close>, or the
  event \<open>Undefined\<close> in a trace, so that a theorem with a result says that it does not happen.
  Errors that the code handles are ordinary results. Machine integers are words where their width
  matters, and \<^typ>\<open>int\<close> with the bound written out for signed accumulators. Uninitialised objects are
  parameters. What the kernel, the C library, the capture or the screen library answers is an
  argument; where the code relies on more than the type of the answer, the assumption is one of the
  locales \<open>rb_library\<close>, \<open>skb_library\<close>, \<open>user_access\<close>, \<open>message_queue\<close>, \<open>screen_library\<close>, each interpreted, as are the
  contracts between components: \<open>dns_store\<close>, \<open>inet_checksum\<close> and \<open>watch_set\<close>.

  \<^bold>\<open>The theories\<close>
  \<^item> Prelude: byte order, words as bytes, bounds-checked memory, C strings, decimal numbers.
  \<^item> Checksum: the four checksum routines (raw\_socket/utils.c, ping/main.c, traceroute/main.c,
    sniffer/main.c) against RFC 1071; locale \<open>inet_checksum\<close>.
  \<^item> Netfilter: packets, and core/netfilter/port\_block. DnsTree, DnsProxy, DnsFormat and DnsTraffic:
    the tree of answers, the two hooks, the message structures of core/netfilter/proxy\_server, and the
    registered hooks over any traffic. Inet: address texts, and core/netfilter/ping.
    RtNetlink: core/netlinkdev, the routing table printer and the pair that exchanges a greeting.
  \<^item> UserAccess: user memory and the kernel routines that reach it. CharDevice: core/ioctldev with
    its user program. ProcFs: core/procdev. Shadow: core/shadow with its user program.
  \<^item> FileManager, FileManagerMain, FileCopy and CopyThreads: text\_manager, its panels and keys, its windows, the copying of a file, and
    the two threads that take part in it as a step relation.
  \<^item> Multiplex, EventStart and EventVariants: select\_poll\_epoll/main.c, its loops, its start, and its variants against one abstract round.
  \<^item> QueueServer and TimeClient: udp\_client\_server/main.c, the server as a step relation of its
    threads, and its client.
  \<^item> Icmp and IcmpMain: ping/main.c and traceroute/main.c, their loops and the whole programs. Sniffer and SnifferFormat: sniffer/main.c, its callback on bytes and on its structures.
  \<^item> Syscalls: programs as functions from the replies of the kernel to a trace of their calls and
    output. EchoServers (udp\_tcp\_client\_server), CastPrograms (sctp, broadcast\_multicast),
    RawSocket (raw\_socket) and Processes (daemon, pipe) are such programs. Errors: what \<^verbatim>\<open>die\<close> and
    \<^verbatim>\<open>ERROR\<close> of these and other programs print.

  Definitions carry the names of the functions they translate, with a prefix where two files use
  one name (\<open>ping_checksum\<close>, \<open>tr_checksum\<close>, \<open>sctp_socket_close\<close>, \<open>raw_socket_create\<close>).

  \<^bold>\<open>What the properties show.\<close> C1 to C7 and C11: the answer cache is a finite map, both hooks of the proxy on
  every packet, the packet of an answer, the proxy end to end over any traffic, that one proxy learns what
  another answers, and when the nested calls of the outgoing hook end. C8 and C9: the checksums. C10: the
  port filter. C12 to C17: the devices and proc files over sequences of calls, and what they let a
  user do. C18 and C19: routes and the packet of the ping module. C20 to C23, C39 and C40: the file
  manager over all key sequences, copying, and its two threads. C24 to C28: the event server, its variants and the
  time server over all rounds and interleavings. C29 to C32: ping and traceroute against every
  network. C33 to C38: the remaining network programs. Where the code does not do what it means to, the property
  states what it does.

  \<^bold>\<open>Termination.\<close> Every definition is total. Loops over lists are structural. \<open>nth_byte_loop\<close> of the device's
  program runs on fuel: one more than the 80 bytes of the message, and the theorem about it shows that
  this is enough. \<open>print_rows\<close> counts down the rows still to do; the loops over descriptors have a
  measure below \<open>FD_SETSIZE\<close> or \<open>POLL_MAX\<close>; that of traceroute is the number of hops left. A server
  that runs for ever is a function of the replies it gets: each call takes one, and a trace that
  has used them up ends in the call that is waiting. For the time server the interleaving of
  the threads is a step relation, and the properties speak of all reachable states.

  \<^bold>\<open>Not modelled.\<close> chat\_tcp/main.c: it does not compile, \<open>nbytes\<close> in \<open>recv_all\<close> and \<open>buf\<close> in \<open>server\<close> are
  used without a declaration, so it has no behaviour to translate. A
  trace records a call of \<open>die\<close> as its line. Of the file manager, colours and boxes. Kernel log output
  and printed configurations, where no other step depends on them. Make files and
  the indexes of the editor.
\<close>

end
